theory Spec2Isabelle
  imports Complex_Main "HOL-Library.Word"
begin

unbundle bit_operations_syntax

section \<open>Data model (go-backend/main.go, lines 29--122)\<close>

text \<open>
  Go's \<open>byte\<close> is an 8-bit word. A \<open>decimal.Decimal\<close> (shopspring) is an
  arbitrary-precision decimal whose \<open>Add\<close>, \<open>Sub\<close> and comparisons are exact; it is
  modelled by the rational number it denotes. A \<open>float64\<close> that was decoded from a JSON
  number is finite; it is modelled by the rational number it denotes as well, and kept
  as a type of its own name so that every conversion of the source stays visible.
  A \<open>*string\<close> or \<open>*int\<close> column is an option.
\<close>

type_synonym byte = "8 word"
type_synonym decimal = rat
type_synonym float64 = rat

record LoginRequest =
  Username :: string
  AccessKey :: string

record RegisterRequest =
  Username :: string
  AccessKey :: string
  ReferralCode :: "string option"

record DeviceCheckRequest =
  ServerDeviceID :: string
  UserAgent :: string
  ScreenResolution :: string
  Timezone :: string
  Language :: string
  CanvasFingerprint :: string
  WebGLFingerprint :: string
  AudioFingerprint :: string

record DeviceCheckResponse =
  DeviceID :: string
  CanRegister :: bool
  Registrations :: int
  Blocked :: bool
  RiskScore :: int

record DeviceFingerprint =
  ID :: string
  ServerDeviceID :: string
  LastIP :: "string option"
  Registrations :: int
  MaxRegistrations :: int
  Blocked :: bool
  RiskScore :: int
  UserAgent :: string
  ScreenResolution :: string
  Timezone :: string
  Language :: string
  CanvasFingerprint :: string
  WebGLFingerprint :: string
  AudioFingerprint :: string
  CreatedAt :: int
  UpdatedAt :: int

record User =
  ID :: string
  Username :: string
  AccessKey :: string
  ReferralCode :: "string option"
  ReferredBy :: "string option"
  RegistrationIP :: "string option"
  USDTBalance :: decimal
  BTCBalance :: decimal
  HashPower :: decimal
  BaseHashPower :: decimal
  ReferralHashBonus :: decimal
  GBTCBalance :: decimal
  UnclaimedBalance :: decimal
  TotalReferralEarnings :: decimal
  LastActiveBlock :: "int option"
  IsAdmin :: bool
  IsFrozen :: bool
  IsBanned :: bool
  HasStartedMining :: bool
  KYCVerified :: bool
  KYCVerificationHash :: "string option"
  CreatedAt :: int

text \<open>
  A response is the status code given to \<open>WriteHeader\<close> and the value given to the
  JSON encoder. \<open>writeErrorResponse\<close> encodes \<open>ErrorResponse{Message}\<close> and the
  success paths encode \<open>map[string]string{"message": ...}\<close>: both are the JSON object
  with the single member \<open>message\<close>, the payload \<open>Message\<close>.
\<close>

datatype payload =
  Message string
  | UserData User
  | DeviceCheck DeviceCheckResponse
  | Success bool

datatype response = Response (status: nat) (payload: payload)

definition writeJSONResponse :: "nat \<Rightarrow> payload \<Rightarrow> response" where
  "writeJSONResponse statusCode data = Response statusCode data"

definition writeErrorResponse :: "nat \<Rightarrow> string \<Rightarrow> response" where
  "writeErrorResponse statusCode message = Response statusCode (Message message)"

section \<open>The users table\<close>

text \<open>
  The table is the list of its rows. \<open>SELECT ... WHERE id = $1\<close> scans the first row
  with that id; \<open>UPDATE ... WHERE id = $n\<close> rewrites every row with that id and leaves
  the others as they are. A statement that the store rejects (connection lost, constraint
  violated) returns an error and changes nothing: each operation takes a flag that says
  whether its statement fails.
\<close>

type_synonym users_table = "User list"

datatype 'a scan = ScanError | ErrNoRows | Row 'a

definition queryUserRow :: "bool \<Rightarrow> (User \<Rightarrow> bool) \<Rightarrow> users_table \<Rightarrow> User scan" where
  "queryUserRow fails cond rows =
     (if fails then ScanError
      else case find cond rows of None \<Rightarrow> ErrNoRows | Some u \<Rightarrow> Row u)"

text \<open>\<open>getUserByID\<close> (main.go 127--167): \<open>(nil, nil)\<close> when no row has the id.\<close>

definition getUserByID :: "bool \<Rightarrow> users_table \<Rightarrow> string \<Rightarrow> string + User option" where
  "getUserByID fails rows userID =
     (case queryUserRow fails (\<lambda>u. User.ID u = userID) rows of
        ScanError \<Rightarrow> Inl ''failed to get user by ID''
      | ErrNoRows \<Rightarrow> Inr None
      | Row u \<Rightarrow> Inr (Some u))"

text \<open>\<open>getUserByUsername\<close> (main.go 170--210).\<close>

definition getUserByUsername :: "bool \<Rightarrow> users_table \<Rightarrow> string \<Rightarrow> string + User option" where
  "getUserByUsername fails rows username =
     (case queryUserRow fails (\<lambda>u. User.Username u = username) rows of
        ScanError \<Rightarrow> Inl ''failed to get user''
      | ErrNoRows \<Rightarrow> Inr None
      | Row u \<Rightarrow> Inr (Some u))"

definition updateUsers :: "string \<Rightarrow> (User \<Rightarrow> User) \<Rightarrow> users_table \<Rightarrow> users_table" where
  "updateUsers userID set_cols rows =
     map (\<lambda>u. if User.ID u = userID then set_cols u else u) rows"

section \<open>Credential hashing and verification (main.go 213--294, 739--766)\<close>

subsection \<open>The standard base64 encoding\<close>

text \<open>
  \<open>base64.StdEncoding\<close> of Go's library: the alphabet, the padding character
  \<open>=\<close>, three bytes to four characters. \<open>val\<close> is the 24-bit group
  \<open>a<<16 | b<<8 | c\<close>, and \<open>val div 2^k mod 64\<close> is \<open>val>>k & 0x3F\<close>.
  \<open>DecodeString\<close> drops carriage returns and line feeds, reads four characters at a
  time, takes padding in the last group only, and returns an error (\<open>None\<close>) on any
  other character or length.
\<close>

definition encodeStd :: string where
  "encodeStd = ''ABCDEFGHIJKLMNOPQRSTUVWXYZabcdefghijklmnopqrstuvwxyz0123456789+/''"

definition padChar :: char where
  "padChar = CHR ''=''"

definition encodeQuantum :: "nat \<Rightarrow> string" where
  "encodeQuantum val =
     [encodeStd ! (val div 262144 mod 64), encodeStd ! (val div 4096 mod 64),
      encodeStd ! (val div 64 mod 64), encodeStd ! (val mod 64)]"

fun EncodeToString :: "byte list \<Rightarrow> string" where
  "EncodeToString (a # b # c # src) =
     encodeQuantum (unat a * 65536 + unat b * 256 + unat c) @ EncodeToString src"
| "EncodeToString [a, b] =
     take 3 (encodeQuantum (unat a * 65536 + unat b * 256)) @ [padChar]"
| "EncodeToString [a] =
     take 2 (encodeQuantum (unat a * 65536)) @ [padChar, padChar]"
| "EncodeToString [] = []"

definition decodeMap :: "char \<Rightarrow> nat option" where
  "decodeMap = map_of (zip encodeStd [0..<64])"

definition decodeQuantum :: "char \<Rightarrow> char \<Rightarrow> char \<Rightarrow> char \<Rightarrow> nat option" where
  "decodeQuantum a b c d =
     (case (decodeMap a, decodeMap b, decodeMap c, decodeMap d) of
        (Some x, Some y, Some z, Some w) \<Rightarrow> Some (x * 262144 + y * 4096 + z * 64 + w)
      | _ \<Rightarrow> None)"

definition decodeLast :: "char \<Rightarrow> char \<Rightarrow> char \<Rightarrow> char \<Rightarrow> byte list option" where
  "decodeLast a b c d =
     (if c = padChar \<and> d = padChar then
        (case (decodeMap a, decodeMap b) of
           (Some x, Some y) \<Rightarrow> Some [of_nat ((x * 262144 + y * 4096) div 65536)]
         | _ \<Rightarrow> None)
      else if d = padChar then
        (case (decodeMap a, decodeMap b, decodeMap c) of
           (Some x, Some y, Some z) \<Rightarrow>
             (let val = x * 262144 + y * 4096 + z * 64
              in Some [of_nat (val div 65536), of_nat (val div 256)])
         | _ \<Rightarrow> None)
      else
        (case decodeQuantum a b c d of
           Some val \<Rightarrow> Some [of_nat (val div 65536), of_nat (val div 256), of_nat val]
         | None \<Rightarrow> None))"

fun decodeQuanta :: "string \<Rightarrow> byte list option" where
  "decodeQuanta [] = Some []"
| "decodeQuanta [a, b, c, d] = decodeLast a b c d"
| "decodeQuanta (a # b # c # d # src) =
     (case decodeQuantum a b c d of
        None \<Rightarrow> None
      | Some val \<Rightarrow>
          (case decodeQuanta src of
             None \<Rightarrow> None
           | Some dst \<Rightarrow> Some (of_nat (val div 65536) # of_nat (val div 256) # of_nat val # dst)))"
| "decodeQuanta _ = None"

definition DecodeString :: "string \<Rightarrow> byte list option" where
  "DecodeString s = decodeQuanta (filter (\<lambda>c. c \<noteq> CHR 0x0D \<and> c \<noteq> CHR 0x0A) s)"

subsection \<open>The key-derivation function\<close>

text \<open>
  \<open>scrypt.Key(password, salt, N, r, p, keyLen)\<close> of golang.org/x/crypto checks its
  cost parameters and then derives the key. The derivation itself is a parameter of the
  model, a function of the password, the salt and the cost parameters (\<open>[]byte(s)\<close>
  of a Go string is the string's own bytes); the parameter checks are written out, so the
  error return of the source is a branch of the model.
\<close>

type_synonym kdf = "string \<Rightarrow> byte list \<Rightarrow> nat \<Rightarrow> nat \<Rightarrow> nat \<Rightarrow> nat \<Rightarrow> byte list"

definition maxInt :: nat where
  "maxInt = 2 ^ 63 - 1"

definition scrypt_Key ::
  "kdf \<Rightarrow> string \<Rightarrow> byte list \<Rightarrow> nat \<Rightarrow> nat \<Rightarrow> nat \<Rightarrow> nat \<Rightarrow> byte list option" where
  "scrypt_Key derive password salt N r p keyLen =
     (if N \<le> 1 \<or> N AND (N - 1) \<noteq> 0 then None
      else if r * p \<ge> 2 ^ 30 \<or> r > maxInt div 128 div p \<or> r > maxInt div 256
              \<or> N > maxInt div 128 div r then None
      else Some (derive password salt N r p keyLen))"

subsection \<open>\<open>splitHashedKey\<close> and \<open>compareHashes\<close>\<close>

text \<open>
  A slice expression \<open>s[lo:hi]\<close> panics unless \<open>lo \<le> hi \<le> len(s)\<close>, and an index
  expression \<open>a[i]\<close> panics unless \<open>i < len(a)\<close>: \<open>None\<close> is the panic.
\<close>

definition slice :: "'a list \<Rightarrow> nat \<Rightarrow> nat \<Rightarrow> 'a list option" where
  "slice s lo hi = (if lo \<le> hi \<and> hi \<le> length s then Some (take (hi - lo) (drop lo s)) else None)"

text \<open>
  The loop of \<open>splitHashedKey\<close> (main.go 743--748) ranges over the runes of the string
  with their byte offsets. The byte \<open>0x3A\<close> is never part of a multi-byte UTF-8
  sequence, so the offsets at which the rune is \<open>:\<close> are the offsets of the bytes
  \<open>:\<close>, and the loop is modelled over the bytes. It returns the final \<open>start\<close> and
  \<open>parts\<close>.
\<close>

function splitLoop :: "string \<Rightarrow> nat \<Rightarrow> nat \<Rightarrow> string list \<Rightarrow> (nat \<times> string list) option" where
  "splitLoop hashedKey i start parts =
     (if i < length hashedKey then
        (if hashedKey ! i = CHR '':'' then
           (case slice hashedKey start i of
              None \<Rightarrow> None
            | Some part \<Rightarrow> splitLoop hashedKey (i + 1) (i + 1) (parts @ [part]))
         else splitLoop hashedKey (i + 1) start parts)
      else Some (start, parts))"
  by pat_completeness auto
termination
  by (relation "measure (\<lambda>(hashedKey, i, start, parts). length hashedKey - i)") auto

definition splitHashedKey :: "string \<Rightarrow> string list option" where
  "splitHashedKey hashedKey =
     (case splitLoop hashedKey 0 0 [] of
        None \<Rightarrow> None
      | Some (start, parts) \<Rightarrow>
          if start < length hashedKey then
            (case slice hashedKey start (length hashedKey) of
               None \<Rightarrow> None
             | Some part \<Rightarrow> Some (parts @ [part]))
          else Some parts)"

function compareLoop :: "byte list \<Rightarrow> byte list \<Rightarrow> nat \<Rightarrow> byte \<Rightarrow> byte option" where
  "compareLoop a b i result =
     (if i < length a then
        (if i < length b then compareLoop a b (i + 1) (result OR (a ! i XOR b ! i))
         else None)
      else Some result)"
  by pat_completeness auto
termination
  by (relation "measure (\<lambda>(a, b, i, result). length a - i)") auto

definition compareHashes :: "byte list \<Rightarrow> byte list \<Rightarrow> bool option" where
  "compareHashes a b =
     (if length a \<noteq> length b then Some False
      else case compareLoop a b 0 0 of
             None \<Rightarrow> None
           | Some result \<Rightarrow> Some (result = 0))"

text \<open>
  The loop of \<open>compareHashes\<close> once more, with a counter of the executions of its
  body. The counter is not a value of the program: it records how often the body
  \<open>result |= a[i] ^ b[i]\<close> has run when the loop ends.
\<close>

function compareLoopCount ::
  "byte list \<Rightarrow> byte list \<Rightarrow> nat \<Rightarrow> byte \<Rightarrow> nat \<Rightarrow> (byte \<times> nat) option" where
  "compareLoopCount a b i result n =
     (if i < length a then
        (if i < length b then
           compareLoopCount a b (i + 1) (result OR (a ! i XOR b ! i)) (n + 1)
         else None)
      else Some (result, n))"
  by pat_completeness auto
termination
  by (relation "measure (\<lambda>(a, b, i, result, n). length a - i)") auto

definition compareHashesCount :: "byte list \<Rightarrow> byte list \<Rightarrow> (bool \<times> nat) option" where
  "compareHashesCount a b =
     (if length a \<noteq> length b then Some (False, 0)
      else case compareLoopCount a b 0 0 0 of
             None \<Rightarrow> None
           | Some (result, n) \<Rightarrow> Some (result = 0, n))"

text \<open>
  Splitting on the separator, as the specification words it and independently of the
  loop above: a string with \<open>n\<close> separators has \<open>n + 1\<close> segments, the
  pieces between them, empty pieces included.
\<close>

fun spec_segments :: "string \<Rightarrow> string list" where
  "spec_segments [] = [[]]"
| "spec_segments (c # cs) =
     (if c = CHR '':'' then [] # spec_segments cs
      else (c # hd (spec_segments cs)) # tl (spec_segments cs))"

text \<open>The segments with an empty final segment left out.\<close>

definition drop_empty_last :: "string list \<Rightarrow> string list" where
  "drop_empty_last segs = (if last segs = [] then butlast segs else segs)"

subsection \<open>\<open>verifyAccessKey\<close> (main.go 272--294)\<close>

text \<open>The result is \<open>None\<close> when a step panics, and the returned boolean otherwise.\<close>

definition verifyAccessKey :: "kdf \<Rightarrow> string \<Rightarrow> string \<Rightarrow> bool option" where
  "verifyAccessKey derive hashedKey plainKey =
     (case splitHashedKey hashedKey of
        None \<Rightarrow> None
      | Some parts \<Rightarrow>
          if length parts \<noteq> 2 then Some False
          else
            (case DecodeString (parts ! 0) of
               None \<Rightarrow> Some False
             | Some storedHash \<Rightarrow>
                 (case DecodeString (parts ! 1) of
                    None \<Rightarrow> Some False
                  | Some salt \<Rightarrow>
                      (case scrypt_Key derive plainKey salt 32768 8 1 32 of
                         None \<Rightarrow> Some False
                       | Some hash \<Rightarrow> compareHashes storedHash hash))))"

subsection \<open>\<open>createUser\<close> (main.go 213--269)\<close>

text \<open>
  The hashing steps of \<open>createUser\<close> (lines 220--225), for a salt already drawn:
  the stored form is \<open>base64(hash) + ":" + base64(salt)\<close>.
\<close>

definition hashAccessKey :: "kdf \<Rightarrow> byte list \<Rightarrow> string \<Rightarrow> string option" where
  "hashAccessKey derive salt accessKey =
     (case scrypt_Key derive accessKey salt 32768 8 1 32 of
        None \<Rightarrow> None
      | Some hash \<Rightarrow> Some (EncodeToString hash @ '':'' @ EncodeToString salt))"

text \<open>The access key that \<open>handleRegister\<close> accepts (main.go 360).\<close>

definition validAccessKey :: "string \<Rightarrow> bool" where
  "validAccessKey accessKey = (\<not> (accessKey = [] \<or> length accessKey < 6))"

fun string_of_nat :: "nat \<Rightarrow> string" where
  "string_of_nat n =
     (if n < 10 then [char_of (48 + n)]
      else string_of_nat (n div 10) @ [char_of (48 + n mod 10)])"

text \<open>\<open>generateReferralCode\<close> (main.go 730--737); \<open>now\<close> is \<open>time.Now().Unix()\<close>.\<close>

definition generateReferralCode :: "nat \<Rightarrow> string \<Rightarrow> string" where
  "generateReferralCode now username =
     (let code = (if length username > 6 then take 6 username else username)
      in code @ string_of_nat (now mod 1000))"

text \<open>
  \<open>createUser\<close>: \<open>rand_salt\<close> is what \<open>rand.Read\<close> put into the 32-byte salt
  (\<open>None\<close> when it returns an error). The insert lists the username, the stored key, the
  referral code, the referrer and the client address, and writes zero into the eight
  balances; the store fills the remaining columns (id, flags, timestamps), given here
  as the row \<open>assigned\<close>, and returns the whole row.
\<close>

definition createUser ::
  "kdf \<Rightarrow> byte list option \<Rightarrow> nat \<Rightarrow> User \<Rightarrow> bool \<Rightarrow> users_table \<Rightarrow> RegisterRequest \<Rightarrow> string
     \<Rightarrow> (string + User) \<times> users_table" where
  "createUser derive rand_salt now assigned insert_fails rows req clientIP =
     (case rand_salt of
        None \<Rightarrow> (Inl ''failed to generate salt'', rows)
      | Some salt \<Rightarrow>
          (case hashAccessKey derive salt (RegisterRequest.AccessKey req) of
             None \<Rightarrow> (Inl ''failed to hash access key'', rows)
           | Some hashedKey \<Rightarrow>
               let referralCode = generateReferralCode now (RegisterRequest.Username req);
                   user = assigned\<lparr>
                     User.Username := RegisterRequest.Username req,
                     User.AccessKey := hashedKey,
                     User.ReferralCode := Some referralCode,
                     ReferredBy := RegisterRequest.ReferralCode req,
                     RegistrationIP := Some clientIP,
                     USDTBalance := 0, BTCBalance := 0, HashPower := 0, BaseHashPower := 0,
                     ReferralHashBonus := 0, GBTCBalance := 0, UnclaimedBalance := 0,
                     TotalReferralEarnings := 0\<rparr>
               in if insert_fails then (Inl ''failed to create user'', rows)
                  else (Inr user, rows @ [user])))"

section \<open>Session validation (main.go 299--331)\<close>

text \<open>
  The cookie session carries \<open>Values["user_id"]\<close>; the type assertion to \<open>string\<close>
  fails when the value is absent, which is also what an expired or revoked cookie gives.
  The middleware either writes an error response or passes the user it has just read
  to the next handler.
\<close>

definition authMiddleware :: "bool \<Rightarrow> users_table \<Rightarrow> string option \<Rightarrow> response + User" where
  "authMiddleware fails rows user_id =
     (case user_id of
        None \<Rightarrow> Inl (writeErrorResponse 401 ''Authentication required'')
      | Some userID \<Rightarrow>
          if userID = [] then Inl (writeErrorResponse 401 ''Authentication required'')
          else
            (case getUserByID fails rows userID of
               Inl err \<Rightarrow> Inl (writeErrorResponse 401 ''Invalid session'')
             | Inr None \<Rightarrow> Inl (writeErrorResponse 401 ''Invalid session'')
             | Inr (Some user) \<Rightarrow>
                 if User.IsBanned user then Inl (writeErrorResponse 403 ''Account is banned'')
                 else if User.IsFrozen user then Inl (writeErrorResponse 403 ''Account is frozen'')
                 else Inr user))"

text \<open>
  A route registered under \<open>r.Use(authMiddleware)\<close> (main.go 826--844): the handler
  runs only when the middleware passes a user on, and \<open>getUserFromContext\<close> then
  returns that user.
\<close>

definition authenticated ::
  "bool \<Rightarrow> users_table \<Rightarrow> string option \<Rightarrow> (User option \<Rightarrow> response \<times> users_table)
     \<Rightarrow> response \<times> users_table" where
  "authenticated fails rows user_id handler =
     (case authMiddleware fails rows user_id of
        Inl resp \<Rightarrow> (resp, rows)
      | Inr user \<Rightarrow> handler (Some user))"

section \<open>Decoding the amount (main.go 550--557)\<close>



fun bit_length :: "nat \<Rightarrow> nat" where
  "bit_length n = (if n = 0 then 0 else Suc (bit_length (n div 2)))"




section \<open>Ledger handlers (main.go 543--637, backup/mining.go 37--131)\<close>

text \<open>
  \<open>handlePurchasePower\<close>. The request body decodes into \<open>struct{Amount float64}\<close>;
  \<open>req\<close> is \<open>None\<close> when \<open>Decode\<close> returns an error and the decoded amount
  otherwise. The minimum is tested on the float64 itself, the balance on
  \<open>decimal.NewFromFloat(req.Amount)\<close>. \<open>NewFromFloat\<close> is a function of the decimal
  library, a parameter of the model. The update writes the two new balances, computed from
  the user of the request context, into the row with the user's id.
\<close>

definition handlePurchasePower ::
  "(float64 \<Rightarrow> decimal) \<Rightarrow> bool \<Rightarrow> users_table \<Rightarrow> User option \<Rightarrow> float64 option
     \<Rightarrow> response \<times> users_table" where
  "handlePurchasePower NewFromFloat exec_fails rows user req =
     (case user of
        None \<Rightarrow> (writeErrorResponse 401 ''Unauthorized'', rows)
      | Some u \<Rightarrow>
          (case req of
             None \<Rightarrow> (writeErrorResponse 400 ''Invalid request format'', rows)
           | Some Amount \<Rightarrow>
               if Amount < 1 then (writeErrorResponse 400 ''Minimum purchase is 1 USDT'', rows)
               else if USDTBalance u < NewFromFloat Amount
                 then (writeErrorResponse 400 ''Insufficient USDT balance'', rows)
               else
                 let newUSDT = USDTBalance u - NewFromFloat Amount;
                     newHashPower = HashPower u + NewFromFloat Amount
                 in if exec_fails
                    then (writeErrorResponse 500 ''Failed to purchase hash power'', rows)
                    else (writeJSONResponse 200 (Message ''Hash power purchased successfully''),
                          updateUsers (User.ID u)
                            (\<lambda>r. r\<lparr>USDTBalance := newUSDT, HashPower := newHashPower\<rparr>) rows)))"

definition handleStartMining ::
  "bool \<Rightarrow> users_table \<Rightarrow> User option \<Rightarrow> response \<times> users_table" where
  "handleStartMining exec_fails rows user =
     (case user of
        None \<Rightarrow> (writeErrorResponse 401 ''Unauthorized'', rows)
      | Some u \<Rightarrow>
          if HashPower u \<le> 0
            then (writeErrorResponse 400 ''Hash power required to start mining'', rows)
          else if exec_fails then (writeErrorResponse 500 ''Failed to start mining'', rows)
          else (writeJSONResponse 200 (Message ''Mining started successfully''),
                updateUsers (User.ID u) (\<lambda>r. r\<lparr>HasStartedMining := True\<rparr>) rows))"

definition handleClaimRewards ::
  "bool \<Rightarrow> users_table \<Rightarrow> User option \<Rightarrow> response \<times> users_table" where
  "handleClaimRewards exec_fails rows user =
     (case user of
        None \<Rightarrow> (writeErrorResponse 401 ''Unauthorized'', rows)
      | Some u \<Rightarrow>
          if UnclaimedBalance u \<le> 0
            then (writeErrorResponse 400 ''No rewards to claim'', rows)
          else
            let newGBTC = GBTCBalance u + UnclaimedBalance u
            in if exec_fails then (writeErrorResponse 500 ''Failed to claim rewards'', rows)
               else (writeJSONResponse 200 (Message ''Rewards claimed successfully''),
                     updateUsers (User.ID u)
                       (\<lambda>r. r\<lparr>GBTCBalance := newGBTC, UnclaimedBalance := 0\<rparr>) rows))"

text \<open>The invariant of the data model: every balance of a user is at least zero.\<close>

definition balances_nonneg :: "User \<Rightarrow> bool" where
  "balances_nonneg u =
     (0 \<le> USDTBalance u \<and> 0 \<le> BTCBalance u \<and> 0 \<le> HashPower u \<and> 0 \<le> BaseHashPower u \<and>
      0 \<le> ReferralHashBonus u \<and> 0 \<le> GBTCBalance u \<and> 0 \<le> UnclaimedBalance u \<and>
      0 \<le> TotalReferralEarnings u)"

section \<open>Login (main.go 413--473)\<close>

text \<open>
  \<open>req\<close> is \<open>None\<close> when the body does not decode. The result is the response and
  the \<open>user_id\<close> saved into the session (\<open>None\<close> when no session is written); the
  whole result is \<open>None\<close> if \<open>verifyAccessKey\<close> panics.
\<close>

definition handleLogin ::
  "kdf \<Rightarrow> bool \<Rightarrow> users_table \<Rightarrow> LoginRequest option \<Rightarrow> (response \<times> string option) option" where
  "handleLogin derive fails rows req =
     (case req of
        None \<Rightarrow> Some (writeErrorResponse 400 ''Invalid request format'', None)
      | Some rq \<Rightarrow>
          (case getUserByUsername fails rows (LoginRequest.Username rq) of
             Inl err \<Rightarrow> Some (writeErrorResponse 500 ''Database error'', None)
           | Inr None \<Rightarrow> Some (writeErrorResponse 401 ''Invalid credentials'', None)
           | Inr (Some user) \<Rightarrow>
               (case verifyAccessKey derive (User.AccessKey user) (LoginRequest.AccessKey rq) of
                  None \<Rightarrow> None
                | Some verified \<Rightarrow>
                    if \<not> verified then Some (writeErrorResponse 401 ''Invalid credentials'', None)
                    else if User.IsBanned user
                      then Some (writeErrorResponse 403 ''Account is banned'', None)
                    else if User.IsFrozen user
                      then Some (writeErrorResponse 403 ''Account is frozen'', None)
                    else Some (writeJSONResponse 200 (UserData user), Some (User.ID user)))))"

section \<open>Device fingerprints (backup/database.go 188--341)\<close>

type_synonym devices_table = "DeviceFingerprint list"

definition calculateRiskScore :: "DeviceCheckRequest \<Rightarrow> int" where
  "calculateRiskScore fingerprints =
     (let score = 0;
          score = (if DeviceCheckRequest.UserAgent fingerprints = [] then score + 10 else score);
          score = (if DeviceCheckRequest.ScreenResolution fingerprints = [] then score + 5 else score);
          score = (if DeviceCheckRequest.CanvasFingerprint fingerprints = [] then score + 15 else score);
          score = (if DeviceCheckRequest.WebGLFingerprint fingerprints = [] then score + 10 else score)
      in score)"

text \<open>
  \<open>upsertDevice\<close>. The select scans the first row whose \<open>server_device_id\<close> is the
  one given. When there is none, the insert adds a row; the store assigns its id
  (\<open>new_id\<close>) and its timestamps (\<open>now\<close>). Otherwise the update rewrites the address,
  the risk score, the seven signals and \<open>updated_at\<close> of every row with that
  \<open>server_device_id\<close>. \<open>query_fails\<close> and \<open>exec_fails\<close> say whether the select and
  the insert or update return an error.
\<close>

definition upsertDevice ::
  "bool \<Rightarrow> bool \<Rightarrow> string \<Rightarrow> int \<Rightarrow> devices_table \<Rightarrow> string \<Rightarrow> string \<Rightarrow> DeviceCheckRequest
     \<Rightarrow> (string + DeviceCheckResponse) \<times> devices_table" where
  "upsertDevice query_fails exec_fails new_id now rows serverDeviceID clientIP fingerprints =
     (if query_fails then (Inl ''failed to query device'', rows)
      else
        (case find (\<lambda>d. DeviceFingerprint.ServerDeviceID d = serverDeviceID) rows of
           None \<Rightarrow>
             (let device = \<lparr>DeviceFingerprint.ID = new_id,
                    DeviceFingerprint.ServerDeviceID = serverDeviceID,
                    LastIP = Some clientIP,
                    DeviceFingerprint.Registrations = 0,
                    MaxRegistrations = 2,
                    DeviceFingerprint.Blocked = False,
                    DeviceFingerprint.RiskScore = calculateRiskScore fingerprints,
                    DeviceFingerprint.UserAgent = DeviceCheckRequest.UserAgent fingerprints,
                    DeviceFingerprint.ScreenResolution = DeviceCheckRequest.ScreenResolution fingerprints,
                    DeviceFingerprint.Timezone = DeviceCheckRequest.Timezone fingerprints,
                    DeviceFingerprint.Language = DeviceCheckRequest.Language fingerprints,
                    DeviceFingerprint.CanvasFingerprint = DeviceCheckRequest.CanvasFingerprint fingerprints,
                    DeviceFingerprint.WebGLFingerprint = DeviceCheckRequest.WebGLFingerprint fingerprints,
                    DeviceFingerprint.AudioFingerprint = DeviceCheckRequest.AudioFingerprint fingerprints,
                    DeviceFingerprint.CreatedAt = now,
                    UpdatedAt = now\<rparr>
              in if exec_fails then (Inl ''failed to create device'', rows)
                 else
                   (Inr \<lparr>DeviceID = DeviceFingerprint.ID device,
                         CanRegister = (\<not> DeviceFingerprint.Blocked device
                            \<and> DeviceFingerprint.Registrations device < MaxRegistrations device),
                         DeviceCheckResponse.Registrations = DeviceFingerprint.Registrations device,
                         DeviceCheckResponse.Blocked = DeviceFingerprint.Blocked device,
                         DeviceCheckResponse.RiskScore = DeviceFingerprint.RiskScore device\<rparr>,
                    rows @ [device]))
         | Some found \<Rightarrow>
             (let device = found\<lparr>DeviceFingerprint.RiskScore := calculateRiskScore fingerprints\<rparr>
              in if exec_fails then (Inl ''failed to update device'', rows)
                 else
                   (Inr \<lparr>DeviceID = DeviceFingerprint.ID device,
                         CanRegister = (\<not> DeviceFingerprint.Blocked device
                            \<and> DeviceFingerprint.Registrations device < MaxRegistrations device),
                         DeviceCheckResponse.Registrations = DeviceFingerprint.Registrations device,
                         DeviceCheckResponse.Blocked = DeviceFingerprint.Blocked device,
                         DeviceCheckResponse.RiskScore = DeviceFingerprint.RiskScore device\<rparr>,
                    map (\<lambda>d. if DeviceFingerprint.ServerDeviceID d = serverDeviceID
                          then d\<lparr>LastIP := Some clientIP,
                                 DeviceFingerprint.RiskScore := DeviceFingerprint.RiskScore device,
                                 DeviceFingerprint.UserAgent := DeviceCheckRequest.UserAgent fingerprints,
                                 DeviceFingerprint.ScreenResolution := DeviceCheckRequest.ScreenResolution fingerprints,
                                 DeviceFingerprint.Timezone := DeviceCheckRequest.Timezone fingerprints,
                                 DeviceFingerprint.Language := DeviceCheckRequest.Language fingerprints,
                                 DeviceFingerprint.CanvasFingerprint := DeviceCheckRequest.CanvasFingerprint fingerprints,
                                 DeviceFingerprint.WebGLFingerprint := DeviceCheckRequest.WebGLFingerprint fingerprints,
                                 DeviceFingerprint.AudioFingerprint := DeviceCheckRequest.AudioFingerprint fingerprints,
                                 UpdatedAt := now\<rparr>
                          else d) rows))))"


section \<open>Example data\<close>

text \<open>A freshly registered user, as \<open>createUser\<close> returns it, for the concrete instances.\<close>

definition user0 :: User where
  "user0 = \<lparr>User.ID = ''u1'', Username = ''alice'', AccessKey = [],
     ReferralCode = None, ReferredBy = None, RegistrationIP = None,
     USDTBalance = 0, BTCBalance = 0, HashPower = 0, BaseHashPower = 0,
     ReferralHashBonus = 0, GBTCBalance = 0, UnclaimedBalance = 0,
     TotalReferralEarnings = 0, LastActiveBlock = None, IsAdmin = False,
     IsFrozen = False, IsBanned = False, HasStartedMining = False,
     KYCVerified = False, KYCVerificationHash = None, CreatedAt = 0\<rparr>"

text \<open>
  A stand-in for the key derivation, used only to run the model on concrete inputs:
  the first \<open>keyLen\<close> bytes of the password, followed by the first byte of the salt.
\<close>

definition example_kdf :: kdf where
  "example_kdf password salt N r p keyLen =
     map (\<lambda>c. of_nat (of_char c)) (take keyLen password) @ take 1 salt"

text \<open>
  The stored form of the access key \<open>secret1\<close> under the stand-in derivation and a
  salt of 32 bytes, and the registration request that leads to it.
\<close>

definition stored1 :: string where
  "stored1 = EncodeToString (example_kdf ''secret1'' (replicate 32 7) 32768 8 1 32) @ '':''
     @ EncodeToString (replicate 32 7)"

definition register1 :: RegisterRequest where
  "register1 = \<lparr>RegisterRequest.Username = ''alice'', RegisterRequest.AccessKey = ''secret1'',
     RegisterRequest.ReferralCode = None\<rparr>"

text \<open>A complete set of signals but for the WebGL fingerprint, and a device seen once.\<close>

definition request1 :: DeviceCheckRequest where
  "request1 = \<lparr>DeviceCheckRequest.ServerDeviceID = ''dev-1'',
     DeviceCheckRequest.UserAgent = ''Mozilla/5.0'',
     DeviceCheckRequest.ScreenResolution = ''1920x1080'',
     DeviceCheckRequest.Timezone = ''UTC'',
     DeviceCheckRequest.Language = ''en'',
     DeviceCheckRequest.CanvasFingerprint = ''c0ffee'',
     DeviceCheckRequest.WebGLFingerprint = [],
     DeviceCheckRequest.AudioFingerprint = ''a1''\<rparr>"

definition device1 :: DeviceFingerprint where
  "device1 = \<lparr>DeviceFingerprint.ID = ''d1'', DeviceFingerprint.ServerDeviceID = ''dev-1'',
     LastIP = None, DeviceFingerprint.Registrations = 1, MaxRegistrations = 2,
     DeviceFingerprint.Blocked = False, DeviceFingerprint.RiskScore = 0,
     DeviceFingerprint.UserAgent = [], DeviceFingerprint.ScreenResolution = [],
     DeviceFingerprint.Timezone = [], DeviceFingerprint.Language = [],
     DeviceFingerprint.CanvasFingerprint = [], DeviceFingerprint.WebGLFingerprint = [],
     DeviceFingerprint.AudioFingerprint = [], DeviceFingerprint.CreatedAt = 0, UpdatedAt = 0\<rparr>"

section \<open>Properties\<close>

text \<open>
  The equations of the loops and of \<open>bit_length\<close> are applied by hand, one step at a
  time.
\<close>

declare compareLoop.simps [simp del] splitLoop.simps [simp del] bit_length.simps [simp del]
declare compareLoopCount.simps [simp del]


lemma find_updateUsers:
  assumes "\<And>r. User.ID (f r) = User.ID r"
  shows "find (\<lambda>r. User.ID r = k) (updateUsers k f rows) =
         map_option f (find (\<lambda>r. User.ID r = k) rows)"
  using assms by (induction rows) (auto simp: updateUsers_def)

lemma authMiddleware_pass:
  assumes "find (\<lambda>r. User.ID r = User.ID u) rows = Some u" "User.ID u \<noteq> []"
    "\<not> User.IsBanned u" "\<not> User.IsFrozen u"
  shows "authMiddleware False rows (Some (User.ID u)) = Inr u"
  using assms by (simp add: authMiddleware_def getUserByID_def queryUserRow_def)

subsection \<open>PurchasePower\<close>

text \<open>
  Claim C1, as amended. The user of the request context is the row that the middleware
  has just read, and the store accepts the update. With \<open>d\<close> the decimal that
  \<open>NewFromFloat\<close> makes of the decoded amount: the purchase succeeds exactly when the
  amount is at least 1 and \<open>d\<close> is at most the USDT balance; it then writes USDT minus
  \<open>d\<close> and hash power plus \<open>d\<close> into the user's row; an amount below 1 is answered
  with the below-minimum error, whatever the balance; an amount of at least 1 whose
  \<open>d\<close> exceeds the balance is answered with the insufficient-balance error; a failed
  purchase leaves the table as it was.
\<close>

theorem C1_purchase_power:
  assumes ctx: "find (\<lambda>r. User.ID r = User.ID u) rows = Some u"
  shows "(let d = NewFromFloat amount;
              (resp, rows') = handlePurchasePower NewFromFloat False rows (Some u) (Some amount)
          in (status resp = 200 \<longleftrightarrow> 1 \<le> amount \<and> d \<le> USDTBalance u) \<and>
             (1 \<le> amount \<and> d \<le> USDTBalance u \<longrightarrow>
                resp = Response 200 (Message ''Hash power purchased successfully'') \<and>
                find (\<lambda>r. User.ID r = User.ID u) rows' =
                  Some (u\<lparr>USDTBalance := USDTBalance u - d, HashPower := HashPower u + d\<rparr>)) \<and>
             (amount < 1 \<longrightarrow>
                resp = Response 400 (Message ''Minimum purchase is 1 USDT'') \<and> rows' = rows) \<and>
             (1 \<le> amount \<and> USDTBalance u < d \<longrightarrow>
                resp = Response 400 (Message ''Insufficient USDT balance'') \<and> rows' = rows))"
  using ctx
  by (simp add: handlePurchasePower_def Let_def writeErrorResponse_def writeJSONResponse_def
      find_updateUsers not_less)

text \<open>A user with 100 USDT buys 50: 50 USDT are left and the hash power is 50.\<close>

theorem C1_purchase_power_witness:
  "handlePurchasePower (\<lambda>f. f) False [user0\<lparr>USDTBalance := 100\<rparr>]
      (Some (user0\<lparr>USDTBalance := 100\<rparr>)) (Some 50)
   = (Response 200 (Message ''Hash power purchased successfully''),
      [user0\<lparr>USDTBalance := 50, HashPower := 50\<rparr>])"
  using C1_purchase_power [of "user0\<lparr>USDTBalance := 100\<rparr>" "[user0\<lparr>USDTBalance := 100\<rparr>]"
      "\<lambda>f. f" 50]
  by (simp add: handlePurchasePower_def Let_def writeErrorResponse_def writeJSONResponse_def
      updateUsers_def user0_def)

text \<open>
  The claim as stated fails where both preconditions are unmet: with a balance of 0 and
  an amount of 1/2 the amount exceeds the balance, and the answer is the below-minimum
  error, not the insufficient-balance error.
\<close>

theorem C1_counterexample:
  "USDTBalance user0 < 1 / 2 \<and>
   fst (handlePurchasePower (\<lambda>f. f) False [user0] (Some user0) (Some (1 / 2)))
     = writeErrorResponse 400 ''Minimum purchase is 1 USDT'' \<and>
   fst (handlePurchasePower (\<lambda>f. f) False [user0] (Some user0) (Some (1 / 2)))
     \<noteq> writeErrorResponse 400 ''Insufficient USDT balance''"
  by (simp add: handlePurchasePower_def writeErrorResponse_def user0_def)

subsection \<open>ClaimRewards\<close>

text \<open>
  Claim C2. The user of the request context is the row that the middleware has just read,
  and the store accepts the update. With a positive unclaimed balance, \<open>ClaimRewards\<close>
  adds it to GBTC and writes zero into the unclaimed balance; with an unclaimed balance
  of zero or less it answers with the no-rewards error and changes nothing. Two claim
  requests in succession on the same session, each passing through the session
  middleware: the first succeeds, the second is answered with the no-rewards error and
  changes nothing, so GBTC is credited once and the unclaimed balance is zero.
\<close>

theorem C2_claim_rewards:
  assumes ctx: "find (\<lambda>r. User.ID r = User.ID u) rows = Some u"
  shows "(0 < UnclaimedBalance u \<longrightarrow>
            (let (resp, rows') = handleClaimRewards False rows (Some u)
             in resp = Response 200 (Message ''Rewards claimed successfully'') \<and>
                find (\<lambda>r. User.ID r = User.ID u) rows' =
                  Some (u\<lparr>GBTCBalance := GBTCBalance u + UnclaimedBalance u,
                          UnclaimedBalance := 0\<rparr>))) \<and>
         (UnclaimedBalance u \<le> 0 \<longrightarrow>
            handleClaimRewards False rows (Some u) =
              (Response 400 (Message ''No rewards to claim''), rows)) \<and>
         (0 < UnclaimedBalance u \<and> User.ID u \<noteq> [] \<and> \<not> User.IsBanned u \<and> \<not> User.IsFrozen u
            \<longrightarrow>
            (let (resp1, rows1) =
                   authenticated False rows (Some (User.ID u)) (handleClaimRewards False rows);
                 (resp2, rows2) =
                   authenticated False rows1 (Some (User.ID u)) (handleClaimRewards False rows1)
             in resp1 = Response 200 (Message ''Rewards claimed successfully'') \<and>
                resp2 = Response 400 (Message ''No rewards to claim'') \<and>
                rows2 = rows1 \<and>
                find (\<lambda>r. User.ID r = User.ID u) rows2 =
                  Some (u\<lparr>GBTCBalance := GBTCBalance u + UnclaimedBalance u,
                          UnclaimedBalance := 0\<rparr>)))"
proof -
  let ?u' = "u\<lparr>GBTCBalance := GBTCBalance u + UnclaimedBalance u, UnclaimedBalance := 0\<rparr>"
  let ?rows' = "updateUsers (User.ID u)
      (\<lambda>r. r\<lparr>GBTCBalance := GBTCBalance u + UnclaimedBalance u, UnclaimedBalance := 0\<rparr>) rows"
  have found': "find (\<lambda>r. User.ID r = User.ID u) ?rows' = Some ?u'"
    using ctx by (simp add: find_updateUsers)
  have first: "handleClaimRewards False rows (Some u) =
      (Response 200 (Message ''Rewards claimed successfully''), ?rows')"
    if "0 < UnclaimedBalance u"
    using that by (simp add: handleClaimRewards_def Let_def writeJSONResponse_def)
  have none: "handleClaimRewards False rows (Some u) =
      (Response 400 (Message ''No rewards to claim''), rows)"
    if "UnclaimedBalance u \<le> 0"
    using that by (simp add: handleClaimRewards_def writeErrorResponse_def)
  have pass1: "authMiddleware False rows (Some (User.ID u)) = Inr u"
    if "User.ID u \<noteq> []" "\<not> User.IsBanned u" "\<not> User.IsFrozen u"
    using ctx that by (rule authMiddleware_pass)
  have pass2: "authMiddleware False ?rows' (Some (User.ID u)) = Inr ?u'"
    if "User.ID u \<noteq> []" "\<not> User.IsBanned u" "\<not> User.IsFrozen u"
    using authMiddleware_pass [of ?u' ?rows'] found' that by simp
  have second: "handleClaimRewards False ?rows' (Some ?u') =
      (Response 400 (Message ''No rewards to claim''), ?rows')"
    by (simp add: handleClaimRewards_def writeErrorResponse_def)
  show ?thesis
    using first none found' pass1 pass2 second
    by (simp add: authenticated_def)
qed

text \<open>A user with 3 unclaimed claims twice: GBTC is 3 and the unclaimed balance 0.\<close>

theorem C2_claim_rewards_witness:
  "(let (resp1, rows1) =
       authenticated False [user0\<lparr>UnclaimedBalance := 3\<rparr>] (Some ''u1'')
         (handleClaimRewards False [user0\<lparr>UnclaimedBalance := 3\<rparr>]);
        (resp2, rows2) = authenticated False rows1 (Some ''u1'') (handleClaimRewards False rows1)
    in resp1 = Response 200 (Message ''Rewards claimed successfully'') \<and>
       resp2 = Response 400 (Message ''No rewards to claim'') \<and>
       rows2 = [user0\<lparr>GBTCBalance := 3\<rparr>])"
  using C2_claim_rewards [of "user0\<lparr>UnclaimedBalance := 3\<rparr>" "[user0\<lparr>UnclaimedBalance := 3\<rparr>]"]
  by (simp add: user0_def authenticated_def authMiddleware_def getUserByID_def queryUserRow_def
      handleClaimRewards_def Let_def writeErrorResponse_def writeJSONResponse_def updateUsers_def)

subsection \<open>Session validation\<close>

text \<open>
  Claim C8. For a session bound to a user id, the middleware reads the users table as it
  is at the time of the request. No row with the id (or a read that fails): 401 "Invalid
  session". A banned row: 403 "Account is banned", frozen or not. A frozen row that is not
  banned: 403 "Account is frozen". Otherwise the row just read is passed on. The three
  errors differ from each other. A session that passes, used again after the user's row
  has been marked banned, is answered with the banned error.
\<close>

theorem C8_session_validation:
  assumes "userID \<noteq> []"
  shows "(find (\<lambda>r. User.ID r = userID) rows = None \<longrightarrow>
            authMiddleware False rows (Some userID) =
              Inl (Response 401 (Message ''Invalid session''))) \<and>
         authMiddleware True rows (Some userID) =
           Inl (Response 401 (Message ''Invalid session'')) \<and>
         (\<forall>u. find (\<lambda>r. User.ID r = userID) rows = Some u \<longrightarrow>
            authMiddleware False rows (Some userID) =
              (if User.IsBanned u then Inl (Response 403 (Message ''Account is banned''))
               else if User.IsFrozen u then Inl (Response 403 (Message ''Account is frozen''))
               else Inr u)) \<and>
         Response 401 (Message ''Invalid session'') \<noteq> Response 403 (Message ''Account is banned'') \<and>
         Response 401 (Message ''Invalid session'') \<noteq> Response 403 (Message ''Account is frozen'') \<and>
         Response 403 (Message ''Account is banned'') \<noteq> Response 403 (Message ''Account is frozen'') \<and>
         (\<forall>u. find (\<lambda>r. User.ID r = userID) rows = Some u \<and> \<not> User.IsBanned u
               \<and> \<not> User.IsFrozen u \<longrightarrow>
            authMiddleware False rows (Some userID) = Inr u \<and>
            authMiddleware False (updateUsers userID (\<lambda>r. r\<lparr>IsBanned := True\<rparr>) rows)
                (Some userID)
              = Inl (Response 403 (Message ''Account is banned'')))"
  using assms
  by (auto simp: authMiddleware_def getUserByID_def queryUserRow_def writeErrorResponse_def
      find_updateUsers split: option.splits)

text \<open>The session of \<open>user0\<close> passes; after the ban the same session is refused.\<close>

theorem C8_session_validation_witness:
  "authMiddleware False [user0] (Some ''u1'') = Inr user0 \<and>
   authMiddleware False [user0\<lparr>IsBanned := True\<rparr>] (Some ''u1'')
     = Inl (Response 403 (Message ''Account is banned'')) \<and>
   authMiddleware False [user0\<lparr>IsBanned := True, IsFrozen := True\<rparr>] (Some ''u1'')
     = Inl (Response 403 (Message ''Account is banned'')) \<and>
   authMiddleware False [user0\<lparr>IsFrozen := True\<rparr>] (Some ''u1'')
     = Inl (Response 403 (Message ''Account is frozen'')) \<and>
   authMiddleware False [] (Some ''u1'') = Inl (Response 401 (Message ''Invalid session''))"
  using C8_session_validation [of "''u1''" "[user0]"]
    C8_session_validation [of "''u1''" "[user0\<lparr>IsBanned := True\<rparr>]"]
    C8_session_validation [of "''u1''" "[user0\<lparr>IsBanned := True, IsFrozen := True\<rparr>]"]
    C8_session_validation [of "''u1''" "[user0\<lparr>IsFrozen := True\<rparr>]"]
    C8_session_validation [of "''u1''" "[]"]
  by (simp add: user0_def)

subsection \<open>Comparing and splitting\<close>

lemma byte_xor_eq_0: "(x XOR y) = 0 \<longleftrightarrow> x = y" for x y :: byte
proof
  assume h: "x XOR y = 0"
  have "x = (x XOR y) XOR y" by (simp add: xor.assoc)
  then show "x = y" using h by simp
next
  assume "x = y"
  then show "x XOR y = 0" by simp
qed

lemma compareLoop_spec:
  assumes "length a = length b"
  shows "\<exists>r'. compareLoop a b i r = Some r' \<and> (r' = 0 \<longleftrightarrow> r = 0 \<and> drop i a = drop i b)"
  using assms
proof (induction a b i r rule: compareLoop.induct)
  case (1 a b i result)
  show ?case
  proof (cases "i < length a")
    case True
    with "1.prems" have ib: "i < length b" by simp
    from "1.IH" [OF True ib "1.prems"] obtain r' where
      r': "compareLoop a b (i + 1) (result OR (a ! i XOR b ! i)) = Some r'"
      "r' = 0 \<longleftrightarrow> (result OR (a ! i XOR b ! i)) = 0 \<and> drop (i + 1) a = drop (i + 1) b"
      by blast
    have da: "drop i a = a ! i # drop (i + 1) a" using True by (simp add: Cons_nth_drop_Suc)
    have db: "drop i b = b ! i # drop (i + 1) b" using ib by (simp add: Cons_nth_drop_Suc)
    have o: "(result OR (a ! i XOR b ! i)) = 0 \<longleftrightarrow> result = 0 \<and> a ! i = b ! i"
      by (simp add: or_eq_0_iff byte_xor_eq_0)
    have "compareLoop a b i result = Some r'"
      using True ib r'(1) by (subst compareLoop.simps) simp
    moreover have "r' = 0 \<longleftrightarrow> result = 0 \<and> drop i a = drop i b"
      using r'(2) o da db by auto
    ultimately show ?thesis by blast
  next
    case False
    then have "compareLoop a b i result = Some result" by (subst compareLoop.simps) simp
    moreover have "drop i a = drop i b" using False "1.prems" by simp
    ultimately show ?thesis by simp
  qed
qed

lemma compareHashes_eq: "compareHashes a b = Some (a = b)"
proof (cases "length a = length b")
  case True
  from compareLoop_spec [OF True, of 0 0] show ?thesis
    using True by (auto simp: compareHashes_def)
next
  case False
  then show ?thesis by (auto simp: compareHashes_def)
qed

lemma compareLoop_fold:
  assumes "length a = length b"
  shows "compareLoop a b i r =
           Some (fold (\<lambda>(x, y) acc. acc OR (x XOR y)) (zip (drop i a) (drop i b)) r)"
  using assms
proof (induction a b i r rule: compareLoop.induct)
  case (1 a b i result)
  show ?case
  proof (cases "i < length a")
    case True
    with "1.prems" have ib: "i < length b" by simp
    have da: "drop i a = a ! i # drop (i + 1) a" using True by (simp add: Cons_nth_drop_Suc)
    have db: "drop i b = b ! i # drop (i + 1) b" using ib by (simp add: Cons_nth_drop_Suc)
    have "compareLoop a b i result = compareLoop a b (i + 1) (result OR (a ! i XOR b ! i))"
      using True ib by (subst compareLoop.simps) simp
    also have "\<dots> = Some (fold (\<lambda>(x, y) acc. acc OR (x XOR y))
        (zip (drop (i + 1) a) (drop (i + 1) b)) (result OR (a ! i XOR b ! i)))"
      by (rule "1.IH" [OF True ib "1.prems"])
    also have "\<dots> = Some (fold (\<lambda>(x, y) acc. acc OR (x XOR y)) (zip (drop i a) (drop i b)) result)"
      by (subst da, subst db) simp
    finally show ?thesis .
  next
    case False
    then show ?thesis using "1.prems" by (subst compareLoop.simps) simp
  qed
qed

lemma splitLoop_total:
  assumes "start \<le> i" "i \<le> length s"
  shows "\<exists>st ps. splitLoop s i start parts = Some (st, ps) \<and> st \<le> length s"
  using assms
proof (induction s i start parts rule: splitLoop.induct)
  case (1 hashedKey i start parts)
  show ?case
  proof (cases "i < length hashedKey")
    case False
    then show ?thesis using "1.prems" by (subst splitLoop.simps) simp
  next
    case True
    show ?thesis
    proof (cases "hashedKey ! i = CHR '':''")
      case c: True
      have sl: "slice hashedKey start i = Some (take (i - start) (drop start hashedKey))"
        using "1.prems" by (simp add: slice_def)
      from "1.IH"(1) [OF True c sl] True
      obtain st ps where "splitLoop hashedKey (i + 1) (i + 1)
          (parts @ [take (i - start) (drop start hashedKey)]) = Some (st, ps)" "st \<le> length hashedKey"
        by auto
      then show ?thesis using True c sl by (subst splitLoop.simps) simp
    next
      case c: False
      from "1.IH"(2) [OF True c] True "1.prems"
      obtain st ps where "splitLoop hashedKey (i + 1) start parts = Some (st, ps)"
        "st \<le> length hashedKey"
        by auto
      then show ?thesis using True c by (subst splitLoop.simps) simp
    qed
  qed
qed

lemma splitHashedKey_total: "\<exists>parts. splitHashedKey s = Some parts"
proof -
  obtain st ps where "splitLoop s 0 0 [] = Some (st, ps)" "st \<le> length s"
    using splitLoop_total [of 0 0 s "[]"] by auto
  then show ?thesis by (simp add: splitHashedKey_def slice_def)
qed

lemma splitLoop_skip:
  assumes "\<forall>j. i \<le> j \<and> j < k \<longrightarrow> s ! j \<noteq> CHR '':''" "i \<le> k" "k \<le> length s"
  shows "splitLoop s i start parts = splitLoop s k start parts"
  using assms
proof (induction "k - i" arbitrary: i)
  case 0
  then show ?case by simp
next
  case (Suc n)
  then have lt: "i < k" by simp
  then have "i < length s" "s ! i \<noteq> CHR '':''" using Suc.prems by auto
  then have "splitLoop s i start parts = splitLoop s (i + 1) start parts"
    by (subst splitLoop.simps) simp
  also have "\<dots> = splitLoop s k start parts"
    using Suc.hyps(1) [of "i + 1"] Suc.hyps(2) Suc.prems lt by auto
  finally show ?case .
qed

lemma splitLoop_end: "splitLoop s (length s) start parts = Some (start, parts)"
  by (subst splitLoop.simps) simp

lemma splitHashedKey_two:
  assumes h: "CHR '':'' \<notin> set h" and t: "CHR '':'' \<notin> set t" and ne: "t \<noteq> []"
  shows "splitHashedKey (h @ '':'' @ t) = Some [h, t]"
proof -
  let ?s = "h @ '':'' @ t"
  let ?n = "length h"
  have s1: "splitLoop ?s 0 0 [] = splitLoop ?s ?n 0 []"
    using h by (intro splitLoop_skip) (auto simp: nth_append in_set_conv_nth)
  have at: "?s ! ?n = CHR '':''" by (simp add: nth_append)
  have sl: "slice ?s 0 ?n = Some h" by (simp add: slice_def)
  have s2: "splitLoop ?s ?n 0 [] = splitLoop ?s (?n + 1) (?n + 1) [h]"
    using at sl by (subst splitLoop.simps) simp
  have "\<forall>j. ?n + 1 \<le> j \<and> j < length ?s \<longrightarrow> ?s ! j \<noteq> CHR '':''"
  proof (intro allI impI)
    fix j assume j: "?n + 1 \<le> j \<and> j < length ?s"
    then have "?s ! j = t ! (j - ?n - 1)" by (simp add: nth_append nth_Cons')
    moreover have "j - ?n - 1 < length t" using j by auto
    ultimately show "?s ! j \<noteq> CHR '':''" using t nth_mem by metis
  qed
  then have s3: "splitLoop ?s (?n + 1) (?n + 1) [h] = splitLoop ?s (length ?s) (?n + 1) [h]"
    by (intro splitLoop_skip) auto
  have loop: "splitLoop ?s 0 0 [] = Some (?n + 1, [h])"
    using s1 s2 s3 splitLoop_end [of ?s] by simp
  have sl2: "slice ?s (?n + 1) (length ?s) = Some t" by (simp add: slice_def)
  show ?thesis
    unfolding splitHashedKey_def loop using ne sl2 by simp
qed

lemma spec_segments_ne: "spec_segments s \<noteq> []"
  by (induction s) auto

lemma spec_segments_plain: "CHR '':'' \<notin> set s \<Longrightarrow> spec_segments s = [s]"
  by (induction s) auto

lemma spec_segments_append:
  "CHR '':'' \<notin> set h \<Longrightarrow> spec_segments (h @ CHR '':'' # r) = h # spec_segments r"
  by (induction h) auto

lemma length_spec_segments: "length (spec_segments s) = count_list s (CHR '':'') + 1"
  using spec_segments_ne by (induction s) (auto simp: Suc_pred' )

lemma spec_segments_free: "seg \<in> set (spec_segments s) \<Longrightarrow> CHR '':'' \<notin> set seg"
proof (induction s arbitrary: seg)
  case Nil then show ?case by simp
next
  case (Cons c cs)
  obtain x xs where x: "spec_segments cs = x # xs"
    using spec_segments_ne [of cs] by (cases "spec_segments cs") auto
  show ?case using Cons x by (auto split: if_splits)
qed

lemma splitLoop_segments:
  assumes "start \<le> i" "i \<le> length s" "CHR '':'' \<notin> set (take (i - start) (drop start s))"
  shows "\<exists>st. splitLoop s i start parts
                 = Some (st, parts @ butlast (spec_segments (drop start s)))
              \<and> st \<le> length s \<and> drop st s = last (spec_segments (drop start s))"
  using assms
proof (induction s i start parts rule: splitLoop.induct)
  case (1 hashedKey i start parts)
  let ?cur = "take (i - start) (drop start hashedKey)"
  show ?case
  proof (cases "i < length hashedKey")
    case False
    with "1.prems" have i: "i = length hashedKey" by simp
    have cur: "?cur = drop start hashedKey" using i by simp
    have seg: "spec_segments (drop start hashedKey) = [drop start hashedKey]"
      using "1.prems"(3) cur spec_segments_plain by metis
    have "splitLoop hashedKey i start parts = Some (start, parts)"
      using False by (subst splitLoop.simps) simp
    then show ?thesis using seg "1.prems" i by simp
  next
    case True
    have split: "drop start hashedKey = ?cur @ hashedKey ! i # drop (i + 1) hashedKey"
    proof -
      have "drop start hashedKey = ?cur @ drop (i - start) (drop start hashedKey)"
        by (rule append_take_drop_id [symmetric])
      also have "drop (i - start) (drop start hashedKey) = drop i hashedKey"
        using "1.prems"(1) by simp
      also have "\<dots> = hashedKey ! i # drop (i + 1) hashedKey"
        using True by (simp add: Cons_nth_drop_Suc)
      finally show ?thesis .
    qed
    show ?thesis
    proof (cases "hashedKey ! i = CHR '':''")
      case c: True
      have sl: "slice hashedKey start i = Some ?cur"
        using "1.prems" by (simp add: slice_def)
      have segs: "spec_segments (drop start hashedKey)
                    = ?cur # spec_segments (drop (i + 1) hashedKey)"
        using split c spec_segments_append [OF "1.prems"(3)] by metis
      have "CHR '':'' \<notin> set (take (i + 1 - (i + 1)) (drop (i + 1) hashedKey))" by simp
      from "1.IH"(1) [OF True c sl _ _ this] True
      obtain st where st: "splitLoop hashedKey (i + 1) (i + 1) (parts @ [?cur])
            = Some (st, (parts @ [?cur]) @ butlast (spec_segments (drop (i + 1) hashedKey)))"
          "st \<le> length hashedKey"
          "drop st hashedKey = last (spec_segments (drop (i + 1) hashedKey))"
        by auto
      have "splitLoop hashedKey i start parts
             = splitLoop hashedKey (i + 1) (i + 1) (parts @ [?cur])"
        using True c sl by (subst splitLoop.simps) simp
      then show ?thesis using st segs spec_segments_ne by simp
    next
      case c: False
      have "take (i + 1 - start) (drop start hashedKey) = ?cur @ [hashedKey ! i]"
      proof -
        have "take (i + 1 - start) (drop start hashedKey)
                = take (Suc (i - start)) (drop start hashedKey)"
          using "1.prems"(1) by (simp add: Suc_diff_le)
        also have "\<dots> = ?cur @ [drop start hashedKey ! (i - start)]"
          using True "1.prems"(1) by (intro take_Suc_conv_app_nth) simp
        also have "drop start hashedKey ! (i - start) = hashedKey ! i"
          using True "1.prems"(1) by simp
        finally show ?thesis .
      qed
      then have free: "CHR '':'' \<notin> set (take (i + 1 - start) (drop start hashedKey))"
        using "1.prems"(3) c by auto
      from "1.IH"(2) [OF True c _ _ free] True "1.prems"
      obtain st where st: "splitLoop hashedKey (i + 1) start parts
            = Some (st, parts @ butlast (spec_segments (drop start hashedKey)))"
          "st \<le> length hashedKey"
          "drop st hashedKey = last (spec_segments (drop start hashedKey))"
        by auto
      have "splitLoop hashedKey i start parts = splitLoop hashedKey (i + 1) start parts"
        using True c by (subst splitLoop.simps) simp
      then show ?thesis using st by simp
    qed
  qed
qed

lemma splitHashedKey_segments:
  "splitHashedKey s = Some (drop_empty_last (spec_segments s))"
proof -
  obtain st where st: "splitLoop s 0 0 [] = Some (st, butlast (spec_segments s))"
    "st \<le> length s" "drop st s = last (spec_segments s)"
    using splitLoop_segments [of 0 0 s "[]"] by auto
  show ?thesis
  proof (cases "st < length s")
    case True
    then have "last (spec_segments s) \<noteq> []" using st(3) by (metis drop_eq_Nil not_le)
    moreover have "slice s st (length s) = Some (drop st s)" using True by (simp add: slice_def)
    ultimately show ?thesis
      using st True spec_segments_ne [of s]
      by (simp add: splitHashedKey_def drop_empty_last_def)
  next
    case False
    then have "last (spec_segments s) = []" using st(3) by simp
    then show ?thesis using st False by (simp add: splitHashedKey_def drop_empty_last_def)
  qed
qed

lemma compareLoopCount_spec:
  assumes "length a = length b"
  shows "compareLoopCount a b i r n
           = map_option (\<lambda>r'. (r', n + (length a - i))) (compareLoop a b i r)"
  using assms
proof (induction a b i r n rule: compareLoopCount.induct)
  case (1 a b i result n)
  show ?case
  proof (cases "i < length a")
    case True
    with "1.prems" have ib: "i < length b" by simp
    have "compareLoopCount a b i result n
            = compareLoopCount a b (i + 1) (result OR (a ! i XOR b ! i)) (n + 1)"
      using True ib by (subst compareLoopCount.simps) simp
    also have "\<dots> = map_option (\<lambda>r'. (r', n + 1 + (length a - (i + 1))))
                       (compareLoop a b (i + 1) (result OR (a ! i XOR b ! i)))"
      by (rule "1.IH" [OF True ib "1.prems"])
    also have "compareLoop a b (i + 1) (result OR (a ! i XOR b ! i)) = compareLoop a b i result"
      using True ib by (subst (2) compareLoop.simps) simp
    also have "n + 1 + (length a - (i + 1)) = n + (length a - i)" using True by simp
    finally show ?thesis .
  next
    case False
    then show ?thesis
      by (subst compareLoopCount.simps, subst compareLoop.simps) simp
  qed
qed

lemma compareHashesCount_eq:
  "compareHashesCount a b = Some (a = b, if length a = length b then length a else 0)"
proof (cases "length a = length b")
  case True
  from compareLoop_spec [OF True, of 0 0] obtain r' where
    r': "compareLoop a b 0 0 = Some r'" "r' = 0 \<longleftrightarrow> a = b" by auto
  show ?thesis
    using True r' by (simp add: compareHashesCount_def compareLoopCount_spec [OF True])
next
  case False
  then show ?thesis by (auto simp: compareHashesCount_def)
qed

subsection \<open>The base64 round trip\<close>

lemma length_encodeStd: "length encodeStd = 64"
  by (simp add: encodeStd_def)

lemma distinct_encodeStd: "distinct encodeStd"
  by (simp add: encodeStd_def)

lemma decodeMap_encodeStd: "i < 64 \<Longrightarrow> decodeMap (encodeStd ! i) = Some i"
  using map_of_zip_nth [of encodeStd "[0..<64]" i]
  by (simp add: decodeMap_def length_encodeStd distinct_encodeStd)

lemma padChar_notin: "padChar \<notin> set encodeStd"
  by (simp add: encodeStd_def padChar_def)

lemma encodeStd_nth_mem: "i < 64 \<Longrightarrow> encodeStd ! i \<in> set encodeStd"
  by (rule nth_mem) (simp add: length_encodeStd)

lemma encodeStd_nth_not_pad: "i < 64 \<Longrightarrow> encodeStd ! i \<noteq> padChar"
  using padChar_notin encodeStd_nth_mem by metis

lemma set_encodeQuantum: "set (encodeQuantum val) \<subseteq> set encodeStd"
  by (simp add: encodeQuantum_def encodeStd_nth_mem)

lemma set_EncodeToString: "set (EncodeToString bs) \<subseteq> insert padChar (set encodeStd)"
proof (induction bs rule: EncodeToString.induct)
  case (1 a b c src)
  then show ?case using set_encodeQuantum by auto
next
  case (2 a b)
  then show ?case using set_encodeQuantum [of "unat a * 65536 + unat b * 256"]
    by (auto dest!: in_set_takeD)
next
  case (3 a)
  then show ?case using set_encodeQuantum [of "unat a * 65536"]
    by (auto dest!: in_set_takeD)
next
  case 4
  then show ?case by simp
qed

lemma EncodeToString_eq_Nil: "EncodeToString bs = [] \<longleftrightarrow> bs = []"
  by (induction bs rule: EncodeToString.induct) (simp_all add: encodeQuantum_def)

lemma quantum_recompose:
  fixes val :: nat
  assumes "val < 16777216"
  shows "(val div 262144 mod 64) * 262144 + (val div 4096 mod 64) * 4096
           + (val div 64 mod 64) * 64 + val mod 64 = val"
proof -
  define x1 where "x1 = val div 64"
  define x2 where "x2 = val div 4096"
  define x3 where "x3 = val div 262144"
  define r0 where "r0 = val mod 64"
  define r1 where "r1 = x1 mod 64"
  define r2 where "r2 = x2 mod 64"
  have x2: "x2 = x1 div 64" by (simp add: x1_def x2_def div_mult2_eq [symmetric])
  have x3: "x3 = x2 div 64" by (simp add: x3_def x2_def div_mult2_eq [symmetric])
  have small: "x3 < 64" using assms by (simp add: x3_def less_mult_imp_div_less)
  have e0: "val = x1 * 64 + r0" by (simp add: x1_def r0_def)
  have e1: "x1 = x2 * 64 + r1" by (simp add: x2 r1_def)
  have e2: "x2 = x3 * 64 + r2" by (simp add: x3 r2_def)
  have "x3 mod 64 * 262144 + r2 * 4096 + r1 * 64 + r0 = val"
    using small e0 e1 e2 by simp
  then show ?thesis unfolding r0_def r1_def r2_def x1_def x2_def x3_def .
qed

lemma byte_256: "(256 :: byte) = 0"
  by simp

lemma byte_65536: "(65536 :: byte) = 0"
  by simp

lemma unat_byte_less: "unat a < 256" for a :: byte
  using unsigned_less [of a, where 'a = nat] by simp

lemma decodeQuantum_encodeQuantum:
  assumes "val < 16777216"
  shows "decodeQuantum (encodeStd ! (val div 262144 mod 64)) (encodeStd ! (val div 4096 mod 64))
           (encodeStd ! (val div 64 mod 64)) (encodeStd ! (val mod 64)) = Some val"
proof -
  have d: "decodeMap (encodeStd ! (val div 262144 mod 64)) = Some (val div 262144 mod 64)"
    "decodeMap (encodeStd ! (val div 4096 mod 64)) = Some (val div 4096 mod 64)"
    "decodeMap (encodeStd ! (val div 64 mod 64)) = Some (val div 64 mod 64)"
    "decodeMap (encodeStd ! (val mod 64)) = Some (val mod 64)"
    by (rule decodeMap_encodeStd, simp)+
  have "decodeQuantum (encodeStd ! (val div 262144 mod 64)) (encodeStd ! (val div 4096 mod 64))
           (encodeStd ! (val div 64 mod 64)) (encodeStd ! (val mod 64))
        = Some ((val div 262144 mod 64) * 262144 + (val div 4096 mod 64) * 4096
                 + (val div 64 mod 64) * 64 + val mod 64)"
    unfolding decodeQuantum_def d by simp
  then show ?thesis by (simp only: quantum_recompose [OF assms])
qed

lemma group_bound: "unat a * 65536 + unat b * 256 + unat c < 16777216" for a b c :: byte
  using unat_byte_less [of a] unat_byte_less [of b] unat_byte_less [of c] by simp

lemma group_bytes:
  fixes a b c :: byte
  defines "val \<equiv> unat a * 65536 + unat b * 256 + unat c"
  shows "(of_nat (val div 65536) :: byte) = a" "(of_nat (val div 256) :: byte) = b"
    "(of_nat val :: byte) = c"
proof -
  have lt: "unat a < 256" "unat b < 256" "unat c < 256"
    by (rule unat_byte_less)+
  have "val div 65536 = unat a" using lt by (simp add: val_def)
  then show "(of_nat (val div 65536) :: byte) = a" by simp
  have "val div 256 = unat a * 256 + unat b" using lt by (simp add: val_def)
  then show "(of_nat (val div 256) :: byte) = b" by (simp add: byte_256)
  show "(of_nat val :: byte) = c" by (simp add: val_def byte_256 byte_65536)
qed

lemma decodeMap_None: "c \<notin> set encodeStd \<Longrightarrow> decodeMap c = None"
  by (simp add: decodeMap_def map_of_zip_is_None length_encodeStd)

lemma idx_lt: "n mod 64 < (64::nat)"
  by simp

lemma decodeLast_full:
  fixes a b c :: byte
  defines "val \<equiv> unat a * 65536 + unat b * 256 + unat c"
  shows "decodeLast (encodeStd ! (val div 262144 mod 64)) (encodeStd ! (val div 4096 mod 64))
           (encodeStd ! (val div 64 mod 64)) (encodeStd ! (val mod 64)) = Some [a, b, c]"
proof -
  have lt: "val < 16777216" unfolding val_def by (rule group_bound)
  have np: "encodeStd ! (val div 64 mod 64) \<noteq> padChar" "encodeStd ! (val mod 64) \<noteq> padChar"
    by (rule encodeStd_nth_not_pad, rule idx_lt)+
  show ?thesis
    unfolding decodeLast_def using np decodeQuantum_encodeQuantum [OF lt]
      group_bytes [of a b c, folded val_def]
    by simp
qed

lemma decodeLast_two:
  fixes a b :: byte
  defines "val \<equiv> unat a * 65536 + unat b * 256"
  shows "decodeLast (encodeStd ! (val div 262144 mod 64)) (encodeStd ! (val div 4096 mod 64))
           (encodeStd ! (val div 64 mod 64)) padChar = Some [a, b]"
proof -
  have v0: "val = unat a * 65536 + unat b * 256 + unat (0 :: byte)" by (simp add: val_def)
  have lt: "val < 16777216" unfolding v0 by (rule group_bound)
  have m: "val mod 64 = 0" by (simp add: val_def)
  have np: "encodeStd ! (val div 64 mod 64) \<noteq> padChar"
    by (rule encodeStd_nth_not_pad, rule idx_lt)
  have d: "decodeMap (encodeStd ! (val div 262144 mod 64)) = Some (val div 262144 mod 64)"
    "decodeMap (encodeStd ! (val div 4096 mod 64)) = Some (val div 4096 mod 64)"
    "decodeMap (encodeStd ! (val div 64 mod 64)) = Some (val div 64 mod 64)"
    by (rule decodeMap_encodeStd, rule idx_lt)+
  have r: "(val div 262144 mod 64) * 262144 + (val div 4096 mod 64) * 4096
             + (val div 64 mod 64) * 64 = val"
    using quantum_recompose [OF lt] m by (simp only: add_0_right)
  have "decodeLast (encodeStd ! (val div 262144 mod 64)) (encodeStd ! (val div 4096 mod 64))
           (encodeStd ! (val div 64 mod 64)) padChar
        = Some [of_nat (((val div 262144 mod 64) * 262144 + (val div 4096 mod 64) * 4096
             + (val div 64 mod 64) * 64) div 65536), of_nat (((val div 262144 mod 64) * 262144 + (val div 4096 mod 64) * 4096
             + (val div 64 mod 64) * 64) div 256)]"
    unfolding decodeLast_def d using np by (simp add: Let_def)
  also have "\<dots> = Some [of_nat (val div 65536), of_nat (val div 256)]"
    by (simp only: r)
  also have "\<dots> = Some [a, b]"
    using group_bytes(1,2) [of a b 0, folded v0] by simp
  finally show ?thesis .
qed

lemma decodeLast_one:
  fixes a :: byte
  defines "val \<equiv> unat a * 65536"
  shows "decodeLast (encodeStd ! (val div 262144 mod 64)) (encodeStd ! (val div 4096 mod 64))
           padChar padChar = Some [a]"
proof -
  have v0: "val = unat a * 65536 + unat (0 :: byte) * 256 + unat (0 :: byte)"
    by (simp add: val_def)
  have lt: "val < 16777216" unfolding v0 by (rule group_bound)
  have m: "val mod 64 = 0" "val div 64 mod 64 = 0" by (simp_all add: val_def)
  have d: "decodeMap (encodeStd ! (val div 262144 mod 64)) = Some (val div 262144 mod 64)"
    "decodeMap (encodeStd ! (val div 4096 mod 64)) = Some (val div 4096 mod 64)"
    by (rule decodeMap_encodeStd, rule idx_lt)+
  have r: "(val div 262144 mod 64) * 262144 + (val div 4096 mod 64) * 4096 = val"
    using quantum_recompose [OF lt] m by (simp only: add_0_right mult_zero_left)
  have "decodeLast (encodeStd ! (val div 262144 mod 64)) (encodeStd ! (val div 4096 mod 64))
           padChar padChar
        = Some [of_nat (((val div 262144 mod 64) * 262144 + (val div 4096 mod 64) * 4096)
             div 65536)]"
    unfolding decodeLast_def d by simp
  also have "\<dots> = Some [of_nat (val div 65536)]"
    by (simp only: r)
  also have "\<dots> = Some [a]"
    using group_bytes(1) [of a 0 0, folded v0] by simp
  finally show ?thesis .
qed

lemma decodeQuanta_EncodeToString: "decodeQuanta (EncodeToString bs) = Some bs"
proof (induction bs rule: EncodeToString.induct)
  case (1 a b c src)
  define val where "val = unat a * 65536 + unat b * 256 + unat c"
  have lt: "val < 16777216" unfolding val_def by (rule group_bound)
  have q: "decodeQuantum (encodeStd ! (val div 262144 mod 64)) (encodeStd ! (val div 4096 mod 64))
           (encodeStd ! (val div 64 mod 64)) (encodeStd ! (val mod 64)) = Some val"
    by (rule decodeQuantum_encodeQuantum [OF lt])
  show ?case
  proof (cases "EncodeToString src")
    case Nil
    then have "src = []" by (simp add: EncodeToString_eq_Nil)
    then show ?thesis
      using decodeLast_full [of a b c] by (simp add: encodeQuantum_def)
  next
    case (Cons e es)
    have "decodeQuanta (EncodeToString (a # b # c # src)) =
        decodeQuanta (encodeStd ! (val div 262144 mod 64) # encodeStd ! (val div 4096 mod 64)
          # encodeStd ! (val div 64 mod 64) # encodeStd ! (val mod 64) # e # es)"
      by (simp add: encodeQuantum_def val_def Cons)
    also have "\<dots> = Some (of_nat (val div 65536) # of_nat (val div 256) # of_nat val # src)"
      using q "1.IH" Cons by simp
    also have "\<dots> = Some (a # b # c # src)"
      using group_bytes [of a b c, folded val_def] by simp
    finally show ?thesis .
  qed
next
  case (2 a b)
  show ?case using decodeLast_two [of a b] by (simp add: encodeQuantum_def)
next
  case (3 a)
  show ?case using decodeLast_one [of a] by (simp add: encodeQuantum_def)
next
  case 4
  show ?case by simp
qed

lemma DecodeString_EncodeToString: "DecodeString (EncodeToString bs) = Some bs"
proof -
  have "CHR 0x0D \<notin> insert padChar (set encodeStd)" "CHR 0x0A \<notin> insert padChar (set encodeStd)"
    by (simp_all add: encodeStd_def padChar_def)
  then have "\<forall>c \<in> set (EncodeToString bs). c \<noteq> CHR 0x0D \<and> c \<noteq> CHR 0x0A"
    using set_EncodeToString [of bs] by blast
  then have "filter (\<lambda>c. c \<noteq> CHR 0x0D \<and> c \<noteq> CHR 0x0A) (EncodeToString bs) = EncodeToString bs"
    by (simp add: filter_id_conv)
  then show ?thesis by (simp add: DecodeString_def decodeQuanta_EncodeToString)
qed

lemma colon_notin_EncodeToString: "CHR '':'' \<notin> set (EncodeToString bs)"
proof -
  have "CHR '':'' \<notin> insert padChar (set encodeStd)"
    by (simp add: encodeStd_def padChar_def)
  then show ?thesis using set_EncodeToString [of bs] by blast
qed

subsection \<open>Verification\<close>

lemma scrypt_Key_fixed: "scrypt_Key derive password salt 32768 8 1 32 = Some (derive password salt 32768 8 1 32)"
  by (simp add: scrypt_Key_def maxInt_def)

lemma verifyAccessKey_total: "\<exists>verified. verifyAccessKey derive hashedKey plainKey = Some verified"
proof -
  obtain parts where "splitHashedKey hashedKey = Some parts"
    using splitHashedKey_total by blast
  then show ?thesis
    unfolding verifyAccessKey_def scrypt_Key_fixed compareHashes_eq
    by (auto split: option.splits)
qed

lemma verifyAccessKey_hashed:
  assumes "salt \<noteq> []"
  shows "hashAccessKey derive salt s =
           Some (EncodeToString (derive s salt 32768 8 1 32) @ '':'' @ EncodeToString salt)"
    and "verifyAccessKey derive
           (EncodeToString (derive s salt 32768 8 1 32) @ '':'' @ EncodeToString salt) s'
         = Some (derive s salt 32768 8 1 32 = derive s' salt 32768 8 1 32)"
proof -
  show "hashAccessKey derive salt s =
           Some (EncodeToString (derive s salt 32768 8 1 32) @ '':'' @ EncodeToString salt)"
    unfolding hashAccessKey_def scrypt_Key_fixed by simp
  have "splitHashedKey (EncodeToString (derive s salt 32768 8 1 32) @ '':'' @ EncodeToString salt)
      = Some [EncodeToString (derive s salt 32768 8 1 32), EncodeToString salt]"
    using assms
    by (intro splitHashedKey_two colon_notin_EncodeToString) (simp add: EncodeToString_eq_Nil)
  then show "verifyAccessKey derive
           (EncodeToString (derive s salt 32768 8 1 32) @ '':'' @ EncodeToString salt) s'
         = Some (derive s salt 32768 8 1 32 = derive s' salt 32768 8 1 32)"
    unfolding verifyAccessKey_def scrypt_Key_fixed compareHashes_eq
    by (simp add: DecodeString_EncodeToString)
qed

text \<open>
  Claim C9, as amended. \<open>verifyAccessKey\<close> returns a boolean for every stored form
  and every plain key: the split never slices out of range and the comparison never
  indexes out of range. What \<open>splitHashedKey\<close> returns is the list of the segments
  of the stored form on the separator (one more than the number of separators), with
  an empty final segment left out. The boolean is false when that list has a length
  other than two, so a verified stored form has two segments, or three of which the
  last is empty; it is false when either of the two segments does not decode. Otherwise
  it is the result of \<open>compareHashes\<close> on the stored bytes and the key derived from the
  plain key with the stored salt. \<open>compareHashes\<close> answers false for different
  lengths; for equal lengths the body of its loop runs once for every position,
  whatever the bytes are, folding the OR of the XORs, and the result is tested against
  zero; so it is true exactly when the two byte sequences are equal.
\<close>

theorem C9_verify_total:
  "(\<exists>verified.
      verifyAccessKey derive hashedKey plainKey = Some verified \<and>
      splitHashedKey hashedKey = Some (drop_empty_last (spec_segments hashedKey)) \<and>
      length (spec_segments hashedKey) = count_list hashedKey (CHR '':'') + 1 \<and>
      (length (drop_empty_last (spec_segments hashedKey)) \<noteq> 2 \<longrightarrow> \<not> verified) \<and>
      (verified \<longrightarrow>
         length (spec_segments hashedKey) = 2 \<or>
         length (spec_segments hashedKey) = 3 \<and> last (spec_segments hashedKey) = []) \<and>
      (\<forall>h s. drop_empty_last (spec_segments hashedKey) = [h, s]
               \<and> (DecodeString h = None \<or> DecodeString s = None) \<longrightarrow> \<not> verified) \<and>
      (\<forall>h s storedHash salt.
         drop_empty_last (spec_segments hashedKey) = [h, s]
           \<and> DecodeString h = Some storedHash \<and> DecodeString s = Some salt \<longrightarrow>
         compareHashes storedHash (derive plainKey salt 32768 8 1 32) = Some verified \<and>
         verified = (storedHash = derive plainKey salt 32768 8 1 32))) \<and>
   (\<forall>a b. compareHashes a b =
      (if length a \<noteq> length b then Some False
       else Some (fold (\<lambda>(x, y) acc. acc OR (x XOR y)) (zip a b) 0 = 0))) \<and>
   (\<forall>a b. compareHashesCount a b
            = Some (a = b, if length a = length b then length a else 0)) \<and>
   (\<forall>a b. map_option fst (compareHashesCount a b) = compareHashes a b) \<and>
   (\<forall>a b. compareHashes a b = Some (a = b))"
proof -
  let ?segs = "spec_segments hashedKey"
  let ?parts = "drop_empty_last ?segs"
  have parts: "splitHashedKey hashedKey = Some ?parts"
    by (rule splitHashedKey_segments)
  obtain verified where v: "verifyAccessKey derive hashedKey plainKey = Some verified"
    using verifyAccessKey_total by blast
  have cmp: "compareHashes a b =
      (if length a \<noteq> length b then Some False
       else Some (fold (\<lambda>(x, y) acc. acc OR (x XOR y)) (zip a b) 0 = 0))" for a b :: "byte list"
    using compareLoop_fold [of a b 0 0] by (simp add: compareHashes_def)
  have first: "length ?parts \<noteq> 2 \<longrightarrow> \<not> verified"
    using v parts by (auto simp: verifyAccessKey_def split: if_splits)
  have count: "verified \<longrightarrow> length ?segs = 2 \<or> length ?segs = 3 \<and> last ?segs = []"
  proof
    assume verified
    with first have "length ?parts = 2" by blast
    then show "length ?segs = 2 \<or> length ?segs = 3 \<and> last ?segs = []"
      by (auto simp: drop_empty_last_def split: if_splits)
  qed
  have second: "?parts = [h, s] \<and> (DecodeString h = None \<or> DecodeString s = None)
         \<longrightarrow> \<not> verified" for h s
    using v parts by (auto simp: verifyAccessKey_def split: option.splits)
  have third: "?parts = [h, s] \<and> DecodeString h = Some storedHash
           \<and> DecodeString s = Some salt \<longrightarrow>
         compareHashes storedHash (derive plainKey salt 32768 8 1 32) = Some verified \<and>
         verified = (storedHash = derive plainKey salt 32768 8 1 32)" for h s storedHash salt
    using v parts unfolding verifyAccessKey_def scrypt_Key_fixed
    by (auto simp: compareHashes_eq)
  have second': "\<forall>h s. ?parts = [h, s]
               \<and> (DecodeString h = None \<or> DecodeString s = None) \<longrightarrow> \<not> verified"
    using second by blast
  have third': "\<forall>h s storedHash salt.
         ?parts = [h, s]
           \<and> DecodeString h = Some storedHash \<and> DecodeString s = Some salt \<longrightarrow>
         compareHashes storedHash (derive plainKey salt 32768 8 1 32) = Some verified \<and>
         verified = (storedHash = derive plainKey salt 32768 8 1 32)"
    using third by blast
  have len: "length ?segs = count_list hashedKey (CHR '':'') + 1"
    by (rule length_spec_segments)
  have A: "\<exists>verified.
      verifyAccessKey derive hashedKey plainKey = Some verified \<and>
      splitHashedKey hashedKey = Some ?parts \<and>
      length ?segs = count_list hashedKey (CHR '':'') + 1 \<and>
      (length ?parts \<noteq> 2 \<longrightarrow> \<not> verified) \<and>
      (verified \<longrightarrow> length ?segs = 2 \<or> length ?segs = 3 \<and> last ?segs = []) \<and>
      (\<forall>h s. ?parts = [h, s]
               \<and> (DecodeString h = None \<or> DecodeString s = None) \<longrightarrow> \<not> verified) \<and>
      (\<forall>h s storedHash salt.
         ?parts = [h, s]
           \<and> DecodeString h = Some storedHash \<and> DecodeString s = Some salt \<longrightarrow>
         compareHashes storedHash (derive plainKey salt 32768 8 1 32) = Some verified \<and>
         verified = (storedHash = derive plainKey salt 32768 8 1 32))"
    by (rule exI [of _ verified])
      (rule conjI [OF v conjI [OF parts conjI [OF len conjI [OF first conjI [OF count
         conjI [OF second' third']]]]]])
  have B: "\<forall>a b :: byte list. compareHashes a b =
      (if length a \<noteq> length b then Some False
       else Some (fold (\<lambda>(x, y) acc. acc OR (x XOR y)) (zip a b) 0 = 0))"
    using cmp by simp
  have C: "\<forall>a b :: byte list. compareHashesCount a b
            = Some (a = b, if length a = length b then length a else 0)"
    using compareHashesCount_eq by blast
  have D: "\<forall>a b :: byte list. map_option fst (compareHashesCount a b) = compareHashes a b"
    by (simp add: compareHashesCount_eq compareHashes_eq)
  have E: "\<forall>a b :: byte list. compareHashes a b = Some (a = b)"
    by (simp add: compareHashes_eq)
  show ?thesis by (rule conjI [OF A conjI [OF B conjI [OF C conjI [OF D E]]]])
qed

text \<open>
  One segment, a segment that does not decode, a trailing separator after one segment,
  three segments, a match, a mismatch; the comparison of two different sequences of
  length two runs its loop body twice.
\<close>

theorem C9_verify_total_witness:
  "verifyAccessKey example_kdf ''AA=='' ''x'' = Some False \<and>
   verifyAccessKey example_kdf ''AA==:A?=='' ''x'' = Some False \<and>
   verifyAccessKey example_kdf ''eA==:'' ''x'' = Some False \<and>
   verifyAccessKey example_kdf ''eAE=:AQ==:AQ=='' ''x'' = Some False \<and>
   verifyAccessKey example_kdf ''eAE=:AQ=='' ''x'' = Some True \<and>
   verifyAccessKey example_kdf ''eAE=:AQ=='' ''y'' = Some False \<and>
   splitHashedKey ''eAE=:AQ=='' = Some [''eAE='', ''AQ==''] \<and>
   compareHashesCount [120, 1] [121, 1] = Some (False, 2)"
proof -
  have e: "EncodeToString [0] = ''AA==''" "EncodeToString [120, 1] = ''eAE=''"
    "EncodeToString [1] = ''AQ==''" "EncodeToString [120] = ''eA==''"
    by (simp_all add: encodeQuantum_def encodeStd_def padChar_def)
  have m: "decodeMap CHR ''A'' = Some 0" "decodeMap CHR ''?'' = None"
    using decodeMap_encodeStd [of 0] by (simp_all add: decodeMap_None encodeStd_def)
  have d1: "DecodeString ''A?=='' = None"
    by (simp add: DecodeString_def decodeLast_def m padChar_def)
  have d3: "DecodeString ''eAE='' = Some [120, 1]"
    unfolding e(2) [symmetric] by (rule DecodeString_EncodeToString)
  have d4: "DecodeString ''AQ=='' = Some [1]"
    unfolding e(3) [symmetric] by (rule DecodeString_EncodeToString)
  have p1: "drop_empty_last (spec_segments ''AA=='') = [''AA=='']"
    and p2: "drop_empty_last (spec_segments ''AA==:A?=='') = [''AA=='', ''A?=='']"
    and p3: "drop_empty_last (spec_segments ''eA==:'') = [''eA=='']"
    and p4: "drop_empty_last (spec_segments ''eAE=:AQ==:AQ=='') = [''eAE='', ''AQ=='', ''AQ=='']"
    and p5: "drop_empty_last (spec_segments ''eAE=:AQ=='') = [''eAE='', ''AQ=='']"
    by (simp_all add: drop_empty_last_def)
  have kx: "example_kdf ''x'' [1] 32768 8 1 32 = [120, 1]"
    and ky: "example_kdf ''y'' [1] 32768 8 1 32 = [121, 1]"
    by (simp_all add: example_kdf_def)
  note A1 = C9_verify_total [of example_kdf "''AA==''" "''x''", THEN conjunct1, unfolded p1]
  note A2 = C9_verify_total [of example_kdf "''AA==:A?==''" "''x''", THEN conjunct1, unfolded p2]
  note A3 = C9_verify_total [of example_kdf "''eA==:''" "''x''", THEN conjunct1, unfolded p3]
  note A4 = C9_verify_total [of example_kdf "''eAE=:AQ==:AQ==''" "''x''", THEN conjunct1, unfolded p4]
  note A5 = C9_verify_total [of example_kdf "''eAE=:AQ==''" "''x''", THEN conjunct1, unfolded p5 kx]
  note A6 = C9_verify_total [of example_kdf "''eAE=:AQ==''" "''y''", THEN conjunct1, unfolded p5 ky]
  note B = C9_verify_total [of example_kdf "''AA==''" "''x''", THEN conjunct2, THEN conjunct2,
      THEN conjunct1, rule_format, of "[120, 1]" "[121, 1]"]
  have r1: "verifyAccessKey example_kdf ''AA=='' ''x'' = Some False"
    using A1 by (elim exE conjE) simp
  have r2: "verifyAccessKey example_kdf ''AA==:A?=='' ''x'' = Some False"
    using A2 by (elim exE conjE) (simp add: d1)
  have r3: "verifyAccessKey example_kdf ''eA==:'' ''x'' = Some False"
    using A3 by (elim exE conjE) simp
  have r4: "verifyAccessKey example_kdf ''eAE=:AQ==:AQ=='' ''x'' = Some False"
    using A4 by (elim exE conjE) simp
  have r5: "verifyAccessKey example_kdf ''eAE=:AQ=='' ''x'' = Some True"
    using A5 by (elim exE conjE) (simp add: d3 d4 example_kdf_def)
  have r6: "verifyAccessKey example_kdf ''eAE=:AQ=='' ''y'' = Some False"
    using A6 by (elim exE conjE) (simp add: d3 d4 example_kdf_def)
  have r7: "splitHashedKey ''eAE=:AQ=='' = Some [''eAE='', ''AQ=='']"
    using A5 by (elim exE conjE)
  from B have r8: "compareHashesCount [120, 1] [121, 1] = Some (False, 2)" by simp
  show ?thesis using r1 r2 r3 r4 r5 r6 r7 r8 by simp
qed

text \<open>
  The claim as stated fails: a stored form with a trailing separator has three segments
  on the separator and is verified like the form without it, for every derivation.
\<close>

theorem C9_counterexample:
  "spec_segments ''eAE=:AQ==:'' = [''eAE='', ''AQ=='', ''''] \<and>
   length (spec_segments ''eAE=:AQ==:'') = 3 \<and>
   verifyAccessKey example_kdf ''eAE=:AQ==:'' ''x'' = Some True \<and>
   (\<forall>derive plainKey.
      length (spec_segments (EncodeToString (derive plainKey [1] 32768 8 1 32) @ '':AQ==:'')) = 3 \<and>
      verifyAccessKey derive (EncodeToString (derive plainKey [1] 32768 8 1 32) @ '':AQ==:'')
        plainKey = Some True)"
proof -
  have e: "EncodeToString [1] = ''AQ==''" "EncodeToString [120, 1] = ''eAE=''"
    by (simp_all add: encodeQuantum_def encodeStd_def padChar_def)
  have d4: "DecodeString ''AQ=='' = Some [1]"
    unfolding e(1) [symmetric] by (rule DecodeString_EncodeToString)
  have gen: "length (spec_segments (EncodeToString k @ '':AQ==:'')) = 3 \<and>
      (derive plainKey [1] 32768 8 1 32 = k \<longrightarrow>
       verifyAccessKey derive (EncodeToString k @ '':AQ==:'') plainKey = Some True)"
    for derive :: kdf and plainKey k
  proof -
    have seg: "spec_segments (EncodeToString k @ '':AQ==:'')
                 = [EncodeToString k, ''AQ=='', '''']"
      using spec_segments_append [OF colon_notin_EncodeToString, of k "''AQ==:''"] by simp
    then have "splitHashedKey (EncodeToString k @ '':AQ==:'') = Some [EncodeToString k, ''AQ=='']"
      by (simp add: splitHashedKey_segments drop_empty_last_def)
    then show ?thesis
      unfolding verifyAccessKey_def scrypt_Key_fixed compareHashes_eq
      by (simp add: seg DecodeString_EncodeToString d4)
  qed
  have k: "example_kdf ''x'' [1] 32768 8 1 32 = [120, 1]"
    by (simp add: example_kdf_def)
  have "verifyAccessKey example_kdf (EncodeToString [120, 1] @ '':AQ==:'') ''x'' = Some True"
    using gen [of "[120, 1]" example_kdf "''x''"] k by blast
  then have c: "verifyAccessKey example_kdf ''eAE=:AQ==:'' ''x'' = Some True"
    unfolding e(2) by simp
  have s: "spec_segments ''eAE=:AQ==:'' = [''eAE='', ''AQ=='', '''']"
    by simp
  have all: "\<forall>(derive :: kdf) plainKey.
      length (spec_segments (EncodeToString (derive plainKey [1] 32768 8 1 32) @ '':AQ==:'')) = 3 \<and>
      verifyAccessKey derive (EncodeToString (derive plainKey [1] 32768 8 1 32) @ '':AQ==:'')
        plainKey = Some True"
    using gen by blast
  show ?thesis using s c all by simp
qed


text \<open>
  Claim C5, as amended. For a salt of 32 bytes, hashing a secret gives the stored form
  \<open>base64(derivedKey) + ":" + base64(salt)\<close>, and verifying that stored form against
  the same secret returns true. Verifying it against any secret returns true exactly when
  that secret's derived key under the stored salt equals the stored derived key: false for
  every secret whose derived key differs, true for one that collides.
\<close>

theorem C5_hash_verify:
  assumes "length salt = 32"
  shows "\<exists>stored.
           hashAccessKey derive salt s = Some stored \<and>
           stored = EncodeToString (derive s salt 32768 8 1 32) @ '':'' @ EncodeToString salt \<and>
           verifyAccessKey derive stored s = Some True \<and>
           (\<forall>s'. verifyAccessKey derive stored s'
                  = Some (derive s' salt 32768 8 1 32 = derive s salt 32768 8 1 32))"
proof -
  from assms have ne: "salt \<noteq> []" by auto
  show ?thesis
    using verifyAccessKey_hashed [OF ne, of derive s] by (auto simp: eq_commute)
qed

text \<open>With the stand-in derivation: the secret itself verifies, another secret does not.\<close>

theorem C5_hash_verify_witness:
  "verifyAccessKey example_kdf
     (EncodeToString (example_kdf ''secret1'' (replicate 32 7) 32768 8 1 32) @ '':''
        @ EncodeToString (replicate 32 7)) ''secret1'' = Some True \<and>
   verifyAccessKey example_kdf
     (EncodeToString (example_kdf ''secret1'' (replicate 32 7) 32768 8 1 32) @ '':''
        @ EncodeToString (replicate 32 7)) ''secret2'' = Some False"
  using C5_hash_verify [of "replicate 32 7" example_kdf "''secret1''"]
  by (simp add: example_kdf_def)

text \<open>
  The passwords are unbounded and a derived key has 32 bytes, so two distinct valid
  secrets have the same derived key under any given salt.
\<close>

lemma finite_keys: "finite {bs :: byte list. length bs = n}"
  using finite_lists_length_eq [of "UNIV :: byte set" n] by simp

lemma infinite_valid: "infinite {s. validAccessKey s}"
proof -
  have inj: "inj (\<lambda>n :: nat. replicate (n + 6) (CHR ''a''))"
    by (auto simp: inj_on_def dest: arg_cong [where f = length])
  have "range (\<lambda>n :: nat. replicate (n + 6) (CHR ''a'')) \<subseteq> {s. validAccessKey s}"
    by (auto simp: validAccessKey_def)
  moreover have "infinite (range (\<lambda>n :: nat. replicate (n + 6) (CHR ''a'')))"
    using finite_imageD [OF _ inj] infinite_UNIV_nat by blast
  ultimately show ?thesis using finite_subset by blast
qed

lemma key_collision:
  fixes derive :: kdf
  assumes len: "\<forall>pw. length (derive pw salt 32768 8 1 32) = 32"
  shows "\<exists>s s'. validAccessKey s \<and> validAccessKey s' \<and> s' \<noteq> s \<and>
           derive s' salt 32768 8 1 32 = derive s salt 32768 8 1 32"
proof (rule ccontr)
  assume no: "\<not> ?thesis"
  let ?f = "\<lambda>pw. derive pw salt 32768 8 1 32"
  have "inj_on ?f {s. validAccessKey s}"
    using no by (auto simp: inj_on_def)
  moreover have "?f ` {s. validAccessKey s} \<subseteq> {bs. length bs = 32}"
    using len by auto
  then have "finite (?f ` {s. validAccessKey s})"
    using finite_keys finite_subset by blast
  ultimately have "finite {s. validAccessKey s}"
    by (rule finite_imageD [rotated])
  then show False using infinite_valid by simp
qed

text \<open>
  The claim as stated fails: no derivation with a 32-byte key makes verification return
  false for every pair of distinct valid secrets and every 32-byte salt.
\<close>

theorem C5_counterexample:
  "\<not> (\<exists>derive :: kdf.
        (\<forall>pw salt. length (derive pw salt 32768 8 1 32) = 32) \<and>
        (\<forall>salt s s' stored.
           length salt = 32 \<and> validAccessKey s \<and> validAccessKey s' \<and> s' \<noteq> s
             \<and> hashAccessKey derive salt s = Some stored
           \<longrightarrow> verifyAccessKey derive stored s' = Some False))"
proof
  assume "\<exists>derive :: kdf.
        (\<forall>pw salt. length (derive pw salt 32768 8 1 32) = 32) \<and>
        (\<forall>salt s s' stored.
           length salt = 32 \<and> validAccessKey s \<and> validAccessKey s' \<and> s' \<noteq> s
             \<and> hashAccessKey derive salt s = Some stored
           \<longrightarrow> verifyAccessKey derive stored s' = Some False)"
  then obtain derive :: kdf where
    len: "\<forall>pw salt. length (derive pw salt 32768 8 1 32) = 32" and
    all: "\<And>salt s s' stored.
           length salt = 32 \<and> validAccessKey s \<and> validAccessKey s' \<and> s' \<noteq> s
             \<and> hashAccessKey derive salt s = Some stored
           \<Longrightarrow> verifyAccessKey derive stored s' = Some False"
    by blast
  define salt :: "byte list" where "salt = replicate 32 0"
  have ls: "length salt = 32" "salt \<noteq> []" by (simp_all add: salt_def)
  obtain s s' where c: "validAccessKey s" "validAccessKey s'" "s' \<noteq> s"
    "derive s' salt 32768 8 1 32 = derive s salt 32768 8 1 32"
    using key_collision [of derive salt] len by blast
  let ?stored = "EncodeToString (derive s salt 32768 8 1 32) @ '':'' @ EncodeToString salt"
  have h: "hashAccessKey derive salt s = Some ?stored"
    by (rule verifyAccessKey_hashed(1) [OF ls(2)])
  have "verifyAccessKey derive ?stored s' = Some True"
    using verifyAccessKey_hashed(2) [OF ls(2), of derive s s'] c(4) by simp
  moreover have "verifyAccessKey derive ?stored s' = Some False"
    using all [of salt s s' ?stored] ls c h by blast
  ultimately show False by simp
qed

subsection \<open>Login\<close>

text \<open>
  Claim C10. For a user found by name who is banned or frozen, and a store that answers:
  \<open>verifyAccessKey\<close> returns a boolean; when it is false the login is answered with
  401 "Invalid credentials", whatever the flags; when it is true it is answered with 403
  "Account is banned" for a banned user and 403 "Account is frozen" for a frozen user
  that is not banned. So a 403 is returned only for a correct access key. No session is
  written in either case.
\<close>

theorem C10_login_order:
  assumes found: "find (\<lambda>u. User.Username u = LoginRequest.Username rq) rows = Some user"
    and gated: "User.IsBanned user \<or> User.IsFrozen user"
  shows "\<exists>verified.
           verifyAccessKey derive (User.AccessKey user) (LoginRequest.AccessKey rq) = Some verified \<and>
           handleLogin derive False rows (Some rq) =
             Some (if \<not> verified then (Response 401 (Message ''Invalid credentials''), None)
                   else if User.IsBanned user
                     then (Response 403 (Message ''Account is banned''), None)
                   else (Response 403 (Message ''Account is frozen''), None))"
proof -
  obtain verified where
    v: "verifyAccessKey derive (User.AccessKey user) (LoginRequest.AccessKey rq) = Some verified"
    using verifyAccessKey_total by blast
  show ?thesis
    using v found gated
    by (auto simp: handleLogin_def getUserByUsername_def queryUserRow_def writeErrorResponse_def)
qed

text \<open>A banned user with a wrong key, with the right key; a frozen user with the right key.\<close>

theorem C10_login_order_witness:
  "handleLogin example_kdf False [user0\<lparr>AccessKey := stored1, IsBanned := True\<rparr>]
     (Some \<lparr>LoginRequest.Username = ''alice'', LoginRequest.AccessKey = ''secret2''\<rparr>)
     = Some (Response 401 (Message ''Invalid credentials''), None) \<and>
   handleLogin example_kdf False [user0\<lparr>AccessKey := stored1, IsBanned := True\<rparr>]
     (Some \<lparr>LoginRequest.Username = ''alice'', LoginRequest.AccessKey = ''secret1''\<rparr>)
     = Some (Response 403 (Message ''Account is banned''), None) \<and>
   handleLogin example_kdf False [user0\<lparr>AccessKey := stored1, IsFrozen := True\<rparr>]
     (Some \<lparr>LoginRequest.Username = ''alice'', LoginRequest.AccessKey = ''secret1''\<rparr>)
     = Some (Response 403 (Message ''Account is frozen''), None)"
proof -
  have v: "verifyAccessKey example_kdf stored1 ''secret2'' = Some False"
    "verifyAccessKey example_kdf stored1 ''secret1'' = Some True"
    unfolding stored1_def
    using verifyAccessKey_hashed(2) [of "replicate 32 7" example_kdf "''secret1''"]
    by (simp_all add: example_kdf_def)
  show ?thesis
    using C10_login_order [of "\<lparr>LoginRequest.Username = ''alice'', LoginRequest.AccessKey = ''secret2''\<rparr>"
        "[user0\<lparr>AccessKey := stored1, IsBanned := True\<rparr>]"
        "user0\<lparr>AccessKey := stored1, IsBanned := True\<rparr>" example_kdf]
      C10_login_order [of "\<lparr>LoginRequest.Username = ''alice'', LoginRequest.AccessKey = ''secret1''\<rparr>"
        "[user0\<lparr>AccessKey := stored1, IsBanned := True\<rparr>]"
        "user0\<lparr>AccessKey := stored1, IsBanned := True\<rparr>" example_kdf]
      C10_login_order [of "\<lparr>LoginRequest.Username = ''alice'', LoginRequest.AccessKey = ''secret1''\<rparr>"
        "[user0\<lparr>AccessKey := stored1, IsFrozen := True\<rparr>]"
        "user0\<lparr>AccessKey := stored1, IsFrozen := True\<rparr>" example_kdf]
    by (auto simp: v user0_def)
qed

subsection \<open>The balance invariant\<close>

text \<open>
  Claim C3. When every row of the users table has all eight balances at least zero, and
  the user of the request context is a row of the table, the table after
  \<open>handlePurchasePower\<close>, after \<open>handleStartMining\<close> and after
  \<open>handleClaimRewards\<close> has all balances at least zero again, whether the handler
  succeeds, refuses, or the store fails (\<open>exec_fails\<close> is arbitrary). A user that
  \<open>createUser\<close> returns has all eight balances zero, and the table with the new row
  keeps the invariant. The one assumption on the decimal library is that
  \<open>NewFromFloat\<close> of an amount of at least 1 is not negative.
\<close>

lemma balances_nonneg_updateUsers:
  assumes "\<forall>r\<in>set rows. balances_nonneg r" "\<And>r. balances_nonneg r \<Longrightarrow> balances_nonneg (f r)"
  shows "\<forall>r\<in>set (updateUsers k f rows). balances_nonneg r"
  using assms by (auto simp: updateUsers_def)

theorem C3_balances_nonneg:
  assumes inv: "\<forall>r\<in>set rows. balances_nonneg r"
    and ctx: "\<forall>u. user = Some u \<longrightarrow> u \<in> set rows"
    and nff: "\<forall>f. 1 \<le> f \<longrightarrow> 0 \<le> NewFromFloat f"
  shows "(\<forall>r\<in>set (snd (handlePurchasePower NewFromFloat exec_fails rows user req)).
            balances_nonneg r) \<and>
         (\<forall>r\<in>set (snd (handleStartMining exec_fails rows user)). balances_nonneg r) \<and>
         (\<forall>r\<in>set (snd (handleClaimRewards exec_fails rows user)). balances_nonneg r) \<and>
         (\<forall>created rows'.
            createUser derive rand_salt now assigned exec_fails rows rq clientIP = (Inr created, rows')
            \<longrightarrow> USDTBalance created = 0 \<and> BTCBalance created = 0 \<and> HashPower created = 0 \<and>
                BaseHashPower created = 0 \<and> ReferralHashBonus created = 0 \<and>
                GBTCBalance created = 0 \<and> UnclaimedBalance created = 0 \<and>
                TotalReferralEarnings created = 0 \<and>
                rows' = rows @ [created] \<and> (\<forall>r\<in>set rows'. balances_nonneg r))"
proof -
  have purchase: "\<forall>r\<in>set (snd (handlePurchasePower NewFromFloat exec_fails rows user req)).
      balances_nonneg r"
  proof (cases user)
    case None
    then show ?thesis using inv by (simp add: handlePurchasePower_def)
  next
    case (Some u)
    then have u: "balances_nonneg u" using inv ctx by blast
    show ?thesis
    proof (cases req)
      case None
      then show ?thesis using inv Some by (simp add: handlePurchasePower_def)
    next
      case (Some amount)
      have upd: "\<forall>r\<in>set (updateUsers (User.ID u)
          (\<lambda>r. r\<lparr>USDTBalance := USDTBalance u - NewFromFloat amount,
                  HashPower := HashPower u + NewFromFloat amount\<rparr>) rows). balances_nonneg r"
        if "1 \<le> amount" "NewFromFloat amount \<le> USDTBalance u"
      proof (rule balances_nonneg_updateUsers [OF inv])
        fix r assume "balances_nonneg r"
        moreover have "0 \<le> NewFromFloat amount" using nff that by blast
        ultimately show "balances_nonneg (r\<lparr>USDTBalance := USDTBalance u - NewFromFloat amount,
                  HashPower := HashPower u + NewFromFloat amount\<rparr>)"
          using that u by (simp add: balances_nonneg_def)
      qed
      show ?thesis
        using inv upd Some \<open>user = Some u\<close>
        by (auto simp: handlePurchasePower_def Let_def not_less)
    qed
  qed
  have mining: "\<forall>r\<in>set (snd (handleStartMining exec_fails rows user)). balances_nonneg r"
  proof (cases user)
    case None
    then show ?thesis using inv by (simp add: handleStartMining_def)
  next
    case (Some u)
    have "\<forall>r\<in>set (updateUsers (User.ID u) (\<lambda>r. r\<lparr>HasStartedMining := True\<rparr>) rows).
        balances_nonneg r"
      by (rule balances_nonneg_updateUsers [OF inv]) (simp add: balances_nonneg_def)
    then show ?thesis using inv Some by (auto simp: handleStartMining_def)
  qed
  have claim: "\<forall>r\<in>set (snd (handleClaimRewards exec_fails rows user)). balances_nonneg r"
  proof (cases user)
    case None
    then show ?thesis using inv by (simp add: handleClaimRewards_def)
  next
    case (Some u)
    then have u: "balances_nonneg u" using inv ctx by blast
    have "\<forall>r\<in>set (updateUsers (User.ID u)
        (\<lambda>r. r\<lparr>GBTCBalance := GBTCBalance u + UnclaimedBalance u, UnclaimedBalance := 0\<rparr>) rows).
        balances_nonneg r"
      by (rule balances_nonneg_updateUsers [OF inv]) (use u in \<open>simp add: balances_nonneg_def\<close>)
    then show ?thesis using inv Some by (auto simp: handleClaimRewards_def Let_def)
  qed
  have create: "USDTBalance created = 0 \<and> BTCBalance created = 0 \<and> HashPower created = 0 \<and>
                BaseHashPower created = 0 \<and> ReferralHashBonus created = 0 \<and>
                GBTCBalance created = 0 \<and> UnclaimedBalance created = 0 \<and>
                TotalReferralEarnings created = 0 \<and>
                rows' = rows @ [created] \<and> (\<forall>r\<in>set rows'. balances_nonneg r)"
    if "createUser derive rand_salt now assigned exec_fails rows rq clientIP = (Inr created, rows')"
    for created rows'
    using that inv
    by (auto simp: createUser_def Let_def balances_nonneg_def split: option.splits if_splits)
  show ?thesis using purchase mining claim create by blast
qed

lemma hashAccessKey_secret1: "hashAccessKey example_kdf (replicate 32 7) ''secret1'' = Some stored1"
    unfolding stored1_def by (rule verifyAccessKey_hashed(1)) simp

lemma createUser_example: "\<exists>created. createUser example_kdf (Some (replicate 32 7)) 1700000000 user0 False
        [u] register1 ''10.0.0.1'' = (Inr created, [u, created])"
proof -
  have a: "RegisterRequest.AccessKey register1 = ''secret1''" by (simp add: register1_def)
  show ?thesis
    apply (simp only: createUser_def a option.case)
    apply (simp only: hashAccessKey_secret1 option.case Let_def if_False)
    apply (rule exI)
    apply (simp only: append.simps)
    done
qed

text \<open>A user with 100 USDT, 5 hash power and 3 unclaimed; and the registration of alice.\<close>

theorem C3_balances_nonneg_witness:
  "list_all balances_nonneg
     (snd (handlePurchasePower (\<lambda>f. f) False
        [user0\<lparr>USDTBalance := 100, HashPower := 5, UnclaimedBalance := 3\<rparr>]
        (Some (user0\<lparr>USDTBalance := 100, HashPower := 5, UnclaimedBalance := 3\<rparr>)) (Some 50))) \<and>
   list_all balances_nonneg
     (snd (handleStartMining False
        [user0\<lparr>USDTBalance := 100, HashPower := 5, UnclaimedBalance := 3\<rparr>]
        (Some (user0\<lparr>USDTBalance := 100, HashPower := 5, UnclaimedBalance := 3\<rparr>)))) \<and>
   list_all balances_nonneg
     (snd (handleClaimRewards False
        [user0\<lparr>USDTBalance := 100, HashPower := 5, UnclaimedBalance := 3\<rparr>]
        (Some (user0\<lparr>USDTBalance := 100, HashPower := 5, UnclaimedBalance := 3\<rparr>)))) \<and>
   (\<exists>created.
      createUser example_kdf (Some (replicate 32 7)) 1700000000 user0 False
        [user0\<lparr>USDTBalance := 100, HashPower := 5, UnclaimedBalance := 3\<rparr>] register1 ''10.0.0.1''
        = (Inr created, [user0\<lparr>USDTBalance := 100, HashPower := 5, UnclaimedBalance := 3\<rparr>, created])
      \<and> USDTBalance created = 0 \<and> HashPower created = 0 \<and> GBTCBalance created = 0
      \<and> UnclaimedBalance created = 0)"
proof -
  let ?u = "user0\<lparr>USDTBalance := 100, HashPower := 5, UnclaimedBalance := 3\<rparr>"
  have inv: "\<forall>r\<in>set [?u]. balances_nonneg r"
    by (simp add: balances_nonneg_def user0_def)
  have ctx: "\<forall>u. Some ?u = Some u \<longrightarrow> u \<in> set [?u]" by simp
  have nff: "\<forall>f :: rat. 1 \<le> f \<longrightarrow> 0 \<le> (\<lambda>f. f) f" by simp
  note t = C3_balances_nonneg [OF inv ctx nff, of False "Some 50" example_kdf
      "Some (replicate 32 7)" 1700000000 user0 register1 "''10.0.0.1''"]
  from createUser_example [of ?u] obtain created where
    cr: "createUser example_kdf (Some (replicate 32 7)) 1700000000 user0 False [?u] register1
           ''10.0.0.1'' = (Inr created, [?u, created])" ..
  from t have t1: "list_all balances_nonneg
     (snd (handlePurchasePower (\<lambda>f. f) False [?u] (Some ?u) (Some 50)))"
    unfolding list_all_iff by (rule conjunct1)
  from t have t2: "list_all balances_nonneg (snd (handleStartMining False [?u] (Some ?u)))"
    unfolding list_all_iff by (rule conjunct2 [THEN conjunct1])
  from t have t3: "list_all balances_nonneg (snd (handleClaimRewards False [?u] (Some ?u)))"
    unfolding list_all_iff by (rule conjunct2 [THEN conjunct2, THEN conjunct1])
  from t have t4: "\<forall>created rows'.
      createUser example_kdf (Some (replicate 32 7)) 1700000000 user0 False [?u] register1
        ''10.0.0.1'' = (Inr created, rows')
      \<longrightarrow> USDTBalance created = 0 \<and> BTCBalance created = 0 \<and> HashPower created = 0 \<and>
          BaseHashPower created = 0 \<and> ReferralHashBonus created = 0 \<and>
          GBTCBalance created = 0 \<and> UnclaimedBalance created = 0 \<and>
          TotalReferralEarnings created = 0 \<and>
          rows' = [?u] @ [created] \<and> (\<forall>r\<in>set rows'. balances_nonneg r)"
    by (rule conjunct2 [THEN conjunct2, THEN conjunct2])
  from t4 [rule_format, OF cr] have z: "USDTBalance created = 0" "HashPower created = 0"
    "GBTCBalance created = 0" "UnclaimedBalance created = 0"
    by simp_all
  have "\<exists>created.
      createUser example_kdf (Some (replicate 32 7)) 1700000000 user0 False [?u] register1
        ''10.0.0.1'' = (Inr created, [?u, created])
      \<and> USDTBalance created = 0 \<and> HashPower created = 0 \<and> GBTCBalance created = 0
      \<and> UnclaimedBalance created = 0"
    using cr z by (intro exI [of _ created] conjI)
  with t1 t2 t3 show ?thesis by (intro conjI)
qed

subsection \<open>Device fingerprints\<close>








text \<open>
  Claim C7. A check on a \<open>server_device_id\<close> that no row has adds exactly one row
  to the table, with that id, 0 registrations, a cap of 2, not blocked, the risk score
  \<open>calculateRiskScore\<close> of the signals and the client address. A check on a
  \<open>server_device_id\<close> that a row has keeps the number of rows and, in every row, the
  registrations, the blocked flag, the cap, the ids and the creation time, whether or not
  the store fails; rows of other devices are untouched; the rows of the device get the
  client address, the recomputed risk score and the seven signals (and the time of the
  update).
\<close>

theorem C7_check_frame:
  "(find (\<lambda>d. DeviceFingerprint.ServerDeviceID d = serverDeviceID) rows = None \<longrightarrow>
      (\<exists>d. upsertDevice False False new_id now rows serverDeviceID clientIP fingerprints =
              (Inr \<lparr>DeviceID = new_id, CanRegister = True, DeviceCheckResponse.Registrations = 0,
                    DeviceCheckResponse.Blocked = False,
                    DeviceCheckResponse.RiskScore = calculateRiskScore fingerprints\<rparr>,
               rows @ [d]) \<and>
            DeviceFingerprint.ID d = new_id \<and>
            DeviceFingerprint.ServerDeviceID d = serverDeviceID \<and>
            DeviceFingerprint.Registrations d = 0 \<and> MaxRegistrations d = 2 \<and>
            \<not> DeviceFingerprint.Blocked d \<and>
            DeviceFingerprint.RiskScore d = calculateRiskScore fingerprints \<and>
            LastIP d = Some clientIP)) \<and>
   (find (\<lambda>d. DeviceFingerprint.ServerDeviceID d = serverDeviceID) rows \<noteq> None \<longrightarrow>
      (let rows' = snd (upsertDevice query_fails exec_fails new_id now rows serverDeviceID
                          clientIP fingerprints)
       in length rows' = length rows \<and>
          map DeviceFingerprint.Registrations rows' = map DeviceFingerprint.Registrations rows \<and>
          map DeviceFingerprint.Blocked rows' = map DeviceFingerprint.Blocked rows \<and>
          map MaxRegistrations rows' = map MaxRegistrations rows \<and>
          map DeviceFingerprint.ID rows' = map DeviceFingerprint.ID rows \<and>
          map DeviceFingerprint.ServerDeviceID rows' = map DeviceFingerprint.ServerDeviceID rows \<and>
          map DeviceFingerprint.CreatedAt rows' = map DeviceFingerprint.CreatedAt rows \<and>
          (\<forall>i<length rows. DeviceFingerprint.ServerDeviceID (rows ! i) \<noteq> serverDeviceID
             \<longrightarrow> rows' ! i = rows ! i))) \<and>
   (find (\<lambda>d. DeviceFingerprint.ServerDeviceID d = serverDeviceID) rows \<noteq> None \<longrightarrow>
      (\<forall>i<length rows. DeviceFingerprint.ServerDeviceID (rows ! i) = serverDeviceID \<longrightarrow>
         (let d' = snd (upsertDevice False False new_id now rows serverDeviceID clientIP
                          fingerprints) ! i
          in LastIP d' = Some clientIP \<and>
             DeviceFingerprint.RiskScore d' = calculateRiskScore fingerprints \<and>
             DeviceFingerprint.UserAgent d' = DeviceCheckRequest.UserAgent fingerprints \<and>
             DeviceFingerprint.ScreenResolution d' = DeviceCheckRequest.ScreenResolution fingerprints \<and>
             DeviceFingerprint.Timezone d' = DeviceCheckRequest.Timezone fingerprints \<and>
             DeviceFingerprint.Language d' = DeviceCheckRequest.Language fingerprints \<and>
             DeviceFingerprint.CanvasFingerprint d' = DeviceCheckRequest.CanvasFingerprint fingerprints \<and>
             DeviceFingerprint.WebGLFingerprint d' = DeviceCheckRequest.WebGLFingerprint fingerprints \<and>
             DeviceFingerprint.AudioFingerprint d' = DeviceCheckRequest.AudioFingerprint fingerprints)))"
proof (intro conjI impI)
  assume "find (\<lambda>d. DeviceFingerprint.ServerDeviceID d = serverDeviceID) rows = None"
  then show "\<exists>d. upsertDevice False False new_id now rows serverDeviceID clientIP fingerprints =
              (Inr \<lparr>DeviceID = new_id, CanRegister = True, DeviceCheckResponse.Registrations = 0,
                    DeviceCheckResponse.Blocked = False,
                    DeviceCheckResponse.RiskScore = calculateRiskScore fingerprints\<rparr>,
               rows @ [d]) \<and>
            DeviceFingerprint.ID d = new_id \<and>
            DeviceFingerprint.ServerDeviceID d = serverDeviceID \<and>
            DeviceFingerprint.Registrations d = 0 \<and> MaxRegistrations d = 2 \<and>
            \<not> DeviceFingerprint.Blocked d \<and>
            DeviceFingerprint.RiskScore d = calculateRiskScore fingerprints \<and>
            LastIP d = Some clientIP"
    by (simp add: upsertDevice_def Let_def)
next
  assume "find (\<lambda>d. DeviceFingerprint.ServerDeviceID d = serverDeviceID) rows \<noteq> None"
  then obtain found where
    "find (\<lambda>d. DeviceFingerprint.ServerDeviceID d = serverDeviceID) rows = Some found"
    by auto
  then show "let rows' = snd (upsertDevice query_fails exec_fails new_id now rows serverDeviceID
                          clientIP fingerprints)
       in length rows' = length rows \<and>
          map DeviceFingerprint.Registrations rows' = map DeviceFingerprint.Registrations rows \<and>
          map DeviceFingerprint.Blocked rows' = map DeviceFingerprint.Blocked rows \<and>
          map MaxRegistrations rows' = map MaxRegistrations rows \<and>
          map DeviceFingerprint.ID rows' = map DeviceFingerprint.ID rows \<and>
          map DeviceFingerprint.ServerDeviceID rows' = map DeviceFingerprint.ServerDeviceID rows \<and>
          map DeviceFingerprint.CreatedAt rows' = map DeviceFingerprint.CreatedAt rows \<and>
          (\<forall>i<length rows. DeviceFingerprint.ServerDeviceID (rows ! i) \<noteq> serverDeviceID
             \<longrightarrow> rows' ! i = rows ! i)"
    by (simp add: upsertDevice_def Let_def)
next
  assume "find (\<lambda>d. DeviceFingerprint.ServerDeviceID d = serverDeviceID) rows \<noteq> None"
  then obtain found where
    "find (\<lambda>d. DeviceFingerprint.ServerDeviceID d = serverDeviceID) rows = Some found"
    by auto
  then show "\<forall>i<length rows. DeviceFingerprint.ServerDeviceID (rows ! i) = serverDeviceID \<longrightarrow>
         (let d' = snd (upsertDevice False False new_id now rows serverDeviceID clientIP
                          fingerprints) ! i
          in LastIP d' = Some clientIP \<and>
             DeviceFingerprint.RiskScore d' = calculateRiskScore fingerprints \<and>
             DeviceFingerprint.UserAgent d' = DeviceCheckRequest.UserAgent fingerprints \<and>
             DeviceFingerprint.ScreenResolution d' = DeviceCheckRequest.ScreenResolution fingerprints \<and>
             DeviceFingerprint.Timezone d' = DeviceCheckRequest.Timezone fingerprints \<and>
             DeviceFingerprint.Language d' = DeviceCheckRequest.Language fingerprints \<and>
             DeviceFingerprint.CanvasFingerprint d' = DeviceCheckRequest.CanvasFingerprint fingerprints \<and>
             DeviceFingerprint.WebGLFingerprint d' = DeviceCheckRequest.WebGLFingerprint fingerprints \<and>
             DeviceFingerprint.AudioFingerprint d' = DeviceCheckRequest.AudioFingerprint fingerprints)"
    by (simp add: upsertDevice_def Let_def)
qed

text \<open>A first check creates the row; a check on a blocked device seen once changes only the address and signals.\<close>

theorem C7_check_frame_witness:
  "snd (upsertDevice False False ''d1'' 5 [] ''dev-1'' ''10.0.0.1'' request1)
     = [device1\<lparr>LastIP := Some ''10.0.0.1'', DeviceFingerprint.Registrations := 0,
          DeviceFingerprint.RiskScore := 10,
          DeviceFingerprint.UserAgent := ''Mozilla/5.0'',
          DeviceFingerprint.ScreenResolution := ''1920x1080'',
          DeviceFingerprint.Timezone := ''UTC'', DeviceFingerprint.Language := ''en'',
          DeviceFingerprint.CanvasFingerprint := ''c0ffee'',
          DeviceFingerprint.AudioFingerprint := ''a1'',
          DeviceFingerprint.CreatedAt := 5, UpdatedAt := 5\<rparr>] \<and>
   map DeviceFingerprint.Registrations
     (snd (upsertDevice False False ''d2'' 9 [device1\<lparr>DeviceFingerprint.Blocked := True\<rparr>]
             ''dev-1'' ''10.0.0.2'' request1)) = [1] \<and>
   map DeviceFingerprint.Blocked
     (snd (upsertDevice False False ''d2'' 9 [device1\<lparr>DeviceFingerprint.Blocked := True\<rparr>]
             ''dev-1'' ''10.0.0.2'' request1)) = [True] \<and>
   map LastIP
     (snd (upsertDevice False False ''d2'' 9 [device1\<lparr>DeviceFingerprint.Blocked := True\<rparr>]
             ''dev-1'' ''10.0.0.2'' request1)) = [Some ''10.0.0.2'']"
  using C7_check_frame [of "''dev-1''" "[]" "''d1''" 5 "''10.0.0.1''" request1 False False]
    C7_check_frame [of "''dev-1''" "[device1\<lparr>DeviceFingerprint.Blocked := True\<rparr>]" "''d2''" 9
      "''10.0.0.2''" request1 False False]
  by (simp add: upsertDevice_def device1_def request1_def calculateRiskScore_def Let_def)


subsection \<open>The amount of a purchase\<close>



















end
